theory Spec2Isabelle
  imports Complex_Main
begin

section \<open>The effects pipeline of lofi\_maker.py\<close>

text \<open>
  The class \<open>LofiMaker\<close> holds one pydub \<open>AudioSegment\<close> and replaces it, stage by
  stage, with the result of a transform. The embedding keeps the source's names.

  Numbers. The segment's samples are the integers \<open>get_array_of_samples()\<close> returns
  (16-bit PCM, the format every transform writes back: \<open>* 32767\<close>, \<open>astype(np.int16)\<close>).
  The float32/float64 intermediate values of the source are modelled as exact reals: no
  rounding error is modelled. A stored integer of the program can therefore differ by
  one step from the model's, where the exact value lies next to an integer; the
  properties below are stated so that they hold of both (a bound, an exact value that
  rounding cannot move, or a margin of 2 around the exact value).
  The one float value that is not a real number, the quotient \<open>0/0\<close> (NaN) of a silent
  signal divided by its zero peak, is the value \<open>None\<close> of a \<open>real option\<close>.
\<close>

subsection \<open>Outcomes\<close>

datatype failure =
    ValueError string
      \<comment> \<open>\<open>raise ValueError(...)\<close> of the source, and NumPy's shape and reduction errors\<close>
  | ZeroDivisionError
      \<comment> \<open>Python's \<open>i / 0\<close> and \<open>t % 0.0\<close>\<close>
  | AudioopError
      \<comment> \<open>\<open>audioop.error\<close>: the resampler refuses a sampling rate that is not positive\<close>

subsection \<open>Data\<close>

record audio_segment =
  samples :: "int list"      \<comment> \<open>\<open>get_array_of_samples()\<close>, interleaved when stereo\<close>
  frame_rate :: int
  channels :: int

record lofi_maker =
  audio :: audio_segment
  slow_down :: bool
  slow_speed :: real
  surround :: bool
  surround_cycle_duration :: real
  surround_depth :: real
  reverb :: bool
  reverb_decay :: real
  reverb_delay_ms :: int
  reverb_repeats :: int
  target_dBFS :: real
  dimension :: bool
  dimension_number :: int
  dimension_cycle :: real

text \<open>
  A method either raises, leaving \<open>self\<close> as it is at that moment, or returns after
  assigning \<open>self.audio\<close>: every transform works on copies and assigns once, in its
  last statement. The first component of an outcome is the exception, if any.
\<close>

type_synonym outcome = "failure option \<times> lofi_maker"

definition assign_audio :: "lofi_maker \<Rightarrow> failure + audio_segment \<Rightarrow> outcome" where
  "assign_audio self r =
     (case r of Inl e \<Rightarrow> (Some e, self) | Inr a \<Rightarrow> (None, self\<lparr>audio := a\<rparr>))"

subsection \<open>Python and NumPy primitives\<close>

definition py_int :: "real \<Rightarrow> int" where
  \<comment> \<open>\<open>int(x)\<close>: truncation toward zero\<close>
  "py_int x = (if 0 \<le> x then \<lfloor>x\<rfloor> else \<lceil>x\<rceil>)"

definition astype_int16 :: "real \<Rightarrow> int" where
  \<comment> \<open>\<open>.astype(np.int16)\<close>: truncation toward zero; wraps modulo \<open>2^16\<close> out of range
     (the transforms only convert values between \<open>-32767\<close> and \<open>32767\<close>)\<close>
  "astype_int16 x = (py_int x + 32768) mod 65536 - 32768"

definition nan_int16 :: int where
  \<comment> \<open>the 16-bit integer stored for a NaN, by \<open>.astype(np.int16)\<close> and by \<open>audioop.mul\<close>:
     C leaves the conversion undefined; x86-64 and AArch64 give a value whose low 16 bits
     are 0. No exception is raised (NumPy warns).\<close>
  "nan_int16 = 0"

definition to_int16 :: "real option \<Rightarrow> int" where
  \<comment> \<open>\<open>(x * 32767).astype(np.int16)\<close> of one float, NaN included\<close>
  "to_int16 v = (case v of None \<Rightarrow> nan_int16 | Some x \<Rightarrow> astype_int16 (x * 32767))"

definition slice_index :: "int \<Rightarrow> nat \<Rightarrow> nat" where
  \<comment> \<open>a slice bound \<open>k\<close> on a sequence of length \<open>n\<close>: negative bounds count from the end,
     and the bound is clamped to \<open>0..n\<close>\<close>
  "slice_index k n = (if k < 0 then nat (max 0 (int n + k)) else min (nat k) n)"

definition slice_to :: "'a list \<Rightarrow> int \<Rightarrow> 'a list" where
  \<comment> \<open>\<open>xs[:k]\<close>\<close>
  "slice_to xs k = take (slice_index k (length xs)) xs"

definition assign_slice_from :: "'a list \<Rightarrow> int \<Rightarrow> 'a list \<Rightarrow> failure + 'a list" where
  \<comment> \<open>\<open>xs[k:] = ys\<close> along the first axis: the shapes agree, or a single row is broadcast\<close>
  "assign_slice_from xs k ys =
     (let s = slice_index k (length xs); m = length xs - s in
      if length ys = m then Inr (take s xs @ ys)
      else if length ys = 1 then Inr (take s xs @ replicate m (hd ys))
      else Inl (ValueError ''could not broadcast input array''))"

fun np_max :: "real list \<Rightarrow> failure + real" where
  \<comment> \<open>\<open>np.max\<close>: a zero-size array has no maximum\<close>
  "np_max [] = Inl (ValueError ''zero-size array to reduction operation maximum'')"
| "np_max (x # xs) = Inr (fold max xs x)"

definition py_fmod :: "real \<Rightarrow> real \<Rightarrow> failure + real" where
  \<comment> \<open>float \<open>x % y\<close>: the result has the sign of \<open>y\<close>\<close>
  "py_fmod x y = (if y = 0 then Inl ZeroDivisionError else Inr (x - y * of_int \<lfloor>x / y\<rfloor>))"

type_synonym frame = "real \<times> real"

fun reshape2 :: "'a list \<Rightarrow> failure + ('a \<times> 'a) list" where
  \<comment> \<open>\<open>.reshape((-1, 2))\<close>: rows of (left, right)\<close>
  "reshape2 [] = Inr []"
| "reshape2 [x] = Inl (ValueError ''cannot reshape array'')"
| "reshape2 (l # r # xs) =
     (case reshape2 xs of Inl e \<Rightarrow> Inl e | Inr fs \<Rightarrow> Inr ((l, r) # fs))"

fun flatten :: "('a \<times> 'a) list \<Rightarrow> 'a list" where
  "flatten [] = []"
| "flatten ((l, r) # fs) = l # r # flatten fs"

subsection \<open>slow\_audio\<close>

text \<open>
  \<open>audioop.ratecv\<close>, the resampler behind \<open>set_frame_rate\<close>, is a parameter
  (samples, channels, input rate, output rate); what it computes is not part of the
  repository. Its rate check is modelled: both rates must be positive.
\<close>

type_synonym resampler = "int list \<Rightarrow> int \<Rightarrow> int \<Rightarrow> int \<Rightarrow> int list"

definition set_frame_rate :: "resampler \<Rightarrow> audio_segment \<Rightarrow> int \<Rightarrow> failure + audio_segment" where
  "set_frame_rate ratecv a r =
     (if r = frame_rate a then Inr a
      else if samples a = [] then Inr (a\<lparr>frame_rate := r\<rparr>)
      else if frame_rate a \<le> 0 \<or> r \<le> 0 then Inl AudioopError
      else Inr (a\<lparr>samples := ratecv (samples a) (channels a) (frame_rate a) r,
                  frame_rate := r\<rparr>))"

definition slow_audio :: "resampler \<Rightarrow> lofi_maker \<Rightarrow> outcome" where
  "slow_audio ratecv self =
     assign_audio self
       (set_frame_rate ratecv
          ((audio self)\<lparr>frame_rate :=
              py_int (of_int (frame_rate (audio self)) * slow_speed self)\<rparr>)
          (frame_rate (audio self)))"

subsection \<open>reverb\_audio\<close>

text \<open>
  The two branches of the source run the same loop, on rows of two values (stereo) and
  on single values (mono); \<open>echo_loop\<close> is that loop, given the scaling and the sum of
  the element type. Each round builds a zero array, assigns the scaled head of the
  original samples to its tail, and adds it to the output.
\<close>

fun echo_loop ::
  "('a \<Rightarrow> real \<Rightarrow> 'a) \<Rightarrow> ('a \<Rightarrow> 'a \<Rightarrow> 'a) \<Rightarrow> 'a \<Rightarrow> int \<Rightarrow> real \<Rightarrow> 'a list \<Rightarrow> 'a list \<Rightarrow> int list
     \<Rightarrow> failure + 'a list" where
  "echo_loop scale add zero d decay smp output [] = Inr output"
| "echo_loop scale add zero d decay smp output (i # is) =
     (case assign_slice_from (map (\<lambda>_. zero) smp) (d * i)
             (map (\<lambda>x. scale x (decay ^ nat i)) (slice_to smp (- d * i))) of
        Inl e \<Rightarrow> Inl e
      | Inr atten \<Rightarrow> echo_loop scale add zero d decay smp (map2 add output atten) is)"

definition frame_scale :: "frame \<Rightarrow> real \<Rightarrow> frame" where
  "frame_scale f c = (fst f * c, snd f * c)"

definition frame_add :: "frame \<Rightarrow> frame \<Rightarrow> frame" where
  "frame_add f g = (fst f + fst g, snd f + snd g)"

definition normalize_peak :: "real list \<Rightarrow> failure + real option list" where
  \<comment> \<open>\<open>output / np.max(np.abs(output))\<close>; the peak is 0 only when every value is 0, and
     then every quotient is \<open>0/0\<close>, NaN\<close>
  "normalize_peak xs =
     (case np_max (map abs xs) of
        Inl e \<Rightarrow> Inl e
      | Inr peak \<Rightarrow> Inr (map (\<lambda>x. if peak = 0 then None else Some (x / peak)) xs))"

definition delay_samples :: "lofi_maker \<Rightarrow> int" where
  "delay_samples self =
     py_int (of_int (frame_rate (audio self) * reverb_delay_ms self) / 1000)"

definition reverb_output :: "lofi_maker \<Rightarrow> failure + real option list" where
  \<comment> \<open>the float array \<open>samples\<close> before \<open>(samples * 32767).astype(np.int16)\<close>\<close>
  "reverb_output self =
     (let smp = map of_int (samples (audio self));
          d = delay_samples self;
          rounds = [1 .. reverb_repeats self]
      in if channels (audio self) = 2 then
           (case reshape2 smp of
              Inl e \<Rightarrow> Inl e
            | Inr fs \<Rightarrow>
               (case echo_loop frame_scale frame_add (0, 0) d (reverb_decay self) fs fs rounds of
                  Inl e \<Rightarrow> Inl e
                | Inr output \<Rightarrow> normalize_peak (flatten output)))
         else
           (case echo_loop (*) (+) 0 d (reverb_decay self) smp smp rounds of
              Inl e \<Rightarrow> Inl e
            | Inr output \<Rightarrow> normalize_peak output))"

definition reverb_audio :: "lofi_maker \<Rightarrow> outcome" where
  "reverb_audio self =
     assign_audio self
       (case reverb_output self of
          Inl e \<Rightarrow> Inl e
        | Inr xs \<Rightarrow> Inr ((audio self)\<lparr>samples := map to_int16 xs\<rparr>))"

subsection \<open>surround\_audio and apply\_nd\_audio\_effect\<close>

fun surround_loop :: "int \<Rightarrow> real \<Rightarrow> real \<Rightarrow> nat \<Rightarrow> frame list \<Rightarrow> failure + frame list" where
  \<comment> \<open>\<open>for i in range(total_samples)\<close>, from frame \<open>i\<close> on\<close>
  "surround_loop sample_rate cycle depth i [] = Inr []"
| "surround_loop sample_rate cycle depth i ((l, r) # fs) =
     (if sample_rate = 0 then Inl ZeroDivisionError
      else case py_fmod (of_nat i / of_int sample_rate) cycle of
             Inl e \<Rightarrow> Inl e
           | Inr t \<Rightarrow>
               (let pan = sin (2 * pi * t / cycle) * depth;
                    left_gain = (1 + pan) / 2;
                    right_gain = (1 - pan) / 2
                in case surround_loop sample_rate cycle depth (Suc i) fs of
                     Inl e \<Rightarrow> Inl e
                   | Inr fs' \<Rightarrow> Inr ((l * left_gain, r * right_gain) # fs')))"

definition surround_output :: "lofi_maker \<Rightarrow> failure + real option list" where
  \<comment> \<open>\<open>stereo / max_val\<close>, before \<open>* 32767\<close> and \<open>astype(np.int16)\<close>\<close>
  "surround_output self =
     (case reshape2 (map of_int (samples (audio self))) of
        Inl e \<Rightarrow> Inl e
      | Inr stereo \<Rightarrow>
          (case surround_loop (frame_rate (audio self)) (surround_cycle_duration self)
                  (surround_depth self) 0 stereo of
             Inl e \<Rightarrow> Inl e
           | Inr panned \<Rightarrow> normalize_peak (flatten panned)))"

definition surround_audio :: "lofi_maker \<Rightarrow> outcome" where
  "surround_audio self =
     (if channels (audio self) \<noteq> 2
      then (Some (ValueError ''Surround effect requires stereo audio.''), self)
      else assign_audio self
             (case surround_output self of
                Inl e \<Rightarrow> Inl e
              | Inr xs \<Rightarrow> Inr ((audio self)\<lparr>samples := map to_int16 xs\<rparr>)))"

fun nd_loop :: "int \<Rightarrow> real \<Rightarrow> nat \<Rightarrow> (int \<times> int) list \<Rightarrow> failure + (int \<times> int) list" where
  "nd_loop sample_rate cycle_duration i [] = Inr []"
| "nd_loop sample_rate cycle_duration i ((l, r) # fs) =
     (if sample_rate = 0 then Inl ZeroDivisionError
      else case py_fmod (of_nat i / of_int sample_rate) cycle_duration of
             Inl e \<Rightarrow> Inl e
           | Inr t \<Rightarrow>
               (let pan = sin (2 * pi * t / cycle_duration);
                    left_gain = (1 + pan) / 2;
                    right_gain = (1 - pan) / 2
                in case nd_loop sample_rate cycle_duration (Suc i) fs of
                     Inl e \<Rightarrow> Inl e
                   | Inr fs' \<Rightarrow>
                       Inr ((py_int (of_int l * left_gain), py_int (of_int r * right_gain))
                            # fs')))"

definition cycle_duration :: "lofi_maker \<Rightarrow> real" where
  "cycle_duration self = dimension_cycle self * (of_int (dimension_number self) / 8)"

definition apply_nd_audio_effect :: "lofi_maker \<Rightarrow> outcome" where
  "apply_nd_audio_effect self =
     (if channels (audio self) \<noteq> 2
      then (Some (ValueError ''N-D audio effect requires stereo input.''), self)
      else assign_audio self
             (case reshape2 (samples (audio self)) of
                Inl e \<Rightarrow> Inl e
              | Inr stereo \<Rightarrow>
                  (case nd_loop (frame_rate (audio self)) (cycle_duration self) 0 stereo of
                     Inl e \<Rightarrow> Inl e
                   | Inr fs \<Rightarrow> Inr ((audio self)\<lparr>samples := flatten fs\<rparr>))))"

subsection \<open>normalize\_audio\<close>

text \<open>
  pydub's \<open>max_dBFS\<close> is \<open>20 * log10 (max / 32768)\<close>, where \<open>max\<close> is the largest absolute
  sample, and minus infinity for a silent segment; \<open>apply_gain g\<close> multiplies every
  sample by \<open>10 ** (g / 20)\<close>, clips to the 16-bit range and rounds down.
\<close>

definition max_amplitude :: "audio_segment \<Rightarrow> int" where
  "max_amplitude a = fold max (map abs (samples a)) 0"

definition max_dBFS :: "audio_segment \<Rightarrow> real" where
  \<comment> \<open>for a segment that is not silent\<close>
  "max_dBFS a = 20 * log 10 (of_int (max_amplitude a) / 32768)"

definition mul_sample :: "real \<Rightarrow> int \<Rightarrow> int" where
  "mul_sample factor s =
     (let v = of_int s * factor
      in if v > 32767 then 32767 else if v < - 32767 then - 32768 else \<lfloor>v\<rfloor>)"

definition apply_gain :: "audio_segment \<Rightarrow> real \<Rightarrow> audio_segment" where
  "apply_gain a g = a\<lparr>samples := map (mul_sample (10 powr (g / 20))) (samples a)\<rparr>"

definition normalize_audio :: "lofi_maker \<Rightarrow> outcome" where
  \<comment> \<open>a silent segment: \<open>max_dBFS\<close> is minus infinity, the gain is infinite, and every
     product \<open>0 * inf\<close> is NaN\<close>
  "normalize_audio self =
     (if max_amplitude (audio self) = 0 then
        (None, self\<lparr>audio := (audio self)\<lparr>samples :=
                  map (\<lambda>s. nan_int16) (samples (audio self))\<rparr>\<rparr>)
      else
        (let change_in_dBFS = target_dBFS self - max_dBFS (audio self)
         in (None, self\<lparr>audio := apply_gain (audio self) change_in_dBFS\<rparr>)))"

subsection \<open>process\<close>

definition and_then :: "outcome \<Rightarrow> (lofi_maker \<Rightarrow> outcome) \<Rightarrow> outcome" where
  \<comment> \<open>the next statement runs unless the previous one raised\<close>
  "and_then r f = (case r of (Some e, self) \<Rightarrow> (Some e, self) | (None, self) \<Rightarrow> f self)"

definition process :: "resampler \<Rightarrow> lofi_maker \<Rightarrow> outcome" where
  "process ratecv self =
     and_then
      (and_then
        (and_then
          (and_then
            (if slow_down self then slow_audio ratecv self else (None, self))
            (\<lambda>self. if reverb self then reverb_audio self else (None, self)))
          (\<lambda>self. if surround self then surround_audio self else (None, self)))
        (\<lambda>self. if dimension self then apply_nd_audio_effect self else (None, self)))
      normalize_audio"

section \<open>Reference definitions\<close>

text \<open>The defaults of \<open>__init__\<close>, for a given segment.\<close>

definition default_maker :: "audio_segment \<Rightarrow> lofi_maker" where
  "default_maker a =
     \<lparr>audio = a, slow_down = True, slow_speed = 85 / 100,
      surround = False, surround_cycle_duration = 14, surround_depth = 7 / 10,
      reverb = True, reverb_decay = 3 / 10, reverb_delay_ms = 120, reverb_repeats = 2,
      target_dBFS = - 1, dimension = False, dimension_number = 8, dimension_cycle = 4\<rparr>"

text \<open>
  The orchestrator as the specification words it: the stages in their fixed order, each
  one gated by its flag except Normalize.
\<close>

datatype stage = Speed | Reverb | Surround | Dimension | Normalize

fun enabled :: "lofi_maker \<Rightarrow> stage \<Rightarrow> bool" where
  "enabled self Speed = slow_down self"
| "enabled self Reverb = reverb self"
| "enabled self Surround = surround self"
| "enabled self Dimension = dimension self"
| "enabled self Normalize = True"

fun transform :: "resampler \<Rightarrow> stage \<Rightarrow> lofi_maker \<Rightarrow> outcome" where
  "transform ratecv Speed = slow_audio ratecv"
| "transform ratecv Reverb = reverb_audio"
| "transform ratecv Surround = surround_audio"
| "transform ratecv Dimension = apply_nd_audio_effect"
| "transform ratecv Normalize = normalize_audio"

fun run_stages :: "resampler \<Rightarrow> stage list \<Rightarrow> lofi_maker \<Rightarrow> outcome" where
  "run_stages ratecv [] self = (None, self)"
| "run_stages ratecv (st # sts) self =
     (case transform ratecv st self of
        (Some e, self') \<Rightarrow> (Some e, self')
      | (None, self') \<Rightarrow> run_stages ratecv sts self')"

text \<open>
  The echo of the specification, for one channel: the copy of round \<open>i\<close> is the
  original shifted forward by \<open>k\<close> frames behind \<open>k\<close> frames of silence and scaled by
  \<open>g\<close>; \<open>echo_sum\<close> adds the copies of the rounds \<open>1..r\<close>, with \<open>k = d * i\<close> and
  \<open>g = decay ^ i\<close>, onto the original.
\<close>

definition delayed_copy :: "nat \<Rightarrow> real \<Rightarrow> real list \<Rightarrow> real list" where
  "delayed_copy k g xs =
     replicate (min k (length xs)) 0 @ map (\<lambda>x. x * g) (take (length xs - k) xs)"

fun echo_sum :: "nat \<Rightarrow> real \<Rightarrow> real list \<Rightarrow> nat \<Rightarrow> real list" where
  "echo_sum d decay xs 0 = xs"
| "echo_sum d decay xs (Suc r) =
     map2 (+) (echo_sum d decay xs r) (delayed_copy (d * Suc r) (decay ^ Suc r) xs)"

text \<open>The channels of an interleaved stereo array, and their interleaving.\<close>

fun left_channel :: "'a list \<Rightarrow> 'a list" where
  "left_channel (l # r # xs) = l # left_channel xs"
| "left_channel xs = []"

fun right_channel :: "'a list \<Rightarrow> 'a list" where
  "right_channel (l # r # xs) = r # right_channel xs"
| "right_channel xs = []"

fun interleave :: "'a list \<Rightarrow> 'a list \<Rightarrow> 'a list" where
  "interleave (l # ls) (r # rs) = l # r # interleave ls rs"
| "interleave ls rs = []"

definition per_channel :: "int \<Rightarrow> (real list \<Rightarrow> real list) \<Rightarrow> real list \<Rightarrow> real list" where
  "per_channel ch f xs =
     (if ch = 2 then interleave (f (left_channel xs)) (f (right_channel xs)) else f xs)"

text \<open>
  The peak absolute amplitude, and the rescaling to full scale: every value divided by
  the peak and multiplied by 32767.
\<close>

definition peak :: "real list \<Rightarrow> real" where
  "peak xs = fold max (map abs xs) 0"

definition full_scale :: "real list \<Rightarrow> real list" where
  "full_scale xs = map (\<lambda>x. x / peak xs * 32767) xs"

text \<open>
  Stored integers against exact values: the same number of them, each within 2 of its
  value. The truncation accounts for less than 1; the rest is room for the rounding of
  the float arithmetic, which the reals of the model do not have.
\<close>

definition close :: "int list \<Rightarrow> real list \<Rightarrow> bool" where
  "close ys vs = list_all2 (\<lambda>y v. \<bar>real_of_int y - v\<bar> \<le> 2) ys vs"

text \<open>
  The signal of \<open>reverb_audio\<close> before its division by the peak: the echo sum of each
  channel, for the truncated delay in frames, the decay and the repeats of the object.
\<close>

definition reverb_sum :: "lofi_maker \<Rightarrow> real list" where
  "reverb_sum self =
     per_channel (channels (audio self))
       (\<lambda>xs. echo_sum (nat (delay_samples self)) (reverb_decay self) xs (nat (reverb_repeats self)))
       (map of_int (samples (audio self)))"

text \<open>
  The panning of the specification: elapsed time, pan position and the two
  complementary gains of frame \<open>i\<close>.
\<close>

definition fmod :: "real \<Rightarrow> real \<Rightarrow> real" where
  "fmod x y = x - y * of_int \<lfloor>x / y\<rfloor>"

definition elapsed :: "int \<Rightarrow> real \<Rightarrow> nat \<Rightarrow> real" where
  "elapsed sample_rate cycle i = fmod (of_nat i / of_int sample_rate) cycle"

definition pan :: "int \<Rightarrow> real \<Rightarrow> real \<Rightarrow> nat \<Rightarrow> real" where
  "pan sample_rate cycle depth i = sin (2 * pi * elapsed sample_rate cycle i / cycle) * depth"

definition left_gain :: "int \<Rightarrow> real \<Rightarrow> real \<Rightarrow> nat \<Rightarrow> real" where
  "left_gain sample_rate cycle depth i = (1 + pan sample_rate cycle depth i) / 2"

definition right_gain :: "int \<Rightarrow> real \<Rightarrow> real \<Rightarrow> nat \<Rightarrow> real" where
  "right_gain sample_rate cycle depth i = (1 - pan sample_rate cycle depth i) / 2"

definition panned :: "int \<Rightarrow> real \<Rightarrow> real \<Rightarrow> nat \<Rightarrow> frame list \<Rightarrow> frame list" where
  "panned sample_rate cycle depth n fs =
     map (\<lambda>(i, l, r). (l * left_gain sample_rate cycle depth i,
                        r * right_gain sample_rate cycle depth i))
       (enumerate n fs)"

definition frames :: "'a list \<Rightarrow> ('a \<times> 'a) list" where
  "frames xs = zip (left_channel xs) (right_channel xs)"

definition panned_int :: "int \<Rightarrow> real \<Rightarrow> nat \<Rightarrow> (int \<times> int) list \<Rightarrow> (int \<times> int) list" where
  "panned_int sample_rate cycle n fs =
     map (\<lambda>(i, l, r). (py_int (of_int l * left_gain sample_rate cycle 1 i),
                        py_int (of_int r * right_gain sample_rate cycle 1 i)))
       (enumerate n fs)"

section \<open>Properties\<close>

subsection \<open>The orchestrator and the channel check\<close>

lemma assign_audio_more: "assign_audio self r = (x, self') \<Longrightarrow> self' = self\<lparr>audio := audio self'\<rparr>"
  by (auto simp: assign_audio_def split: sum.splits)

lemma transform_more:
  "transform ratecv st self = (x, self') \<Longrightarrow> self' = self\<lparr>audio := audio self'\<rparr>"
  by (cases st)
     (auto simp: slow_audio_def reverb_audio_def surround_audio_def apply_nd_audio_effect_def
        normalize_audio_def Let_def dest: assign_audio_more split: if_splits)

lemma transform_enabled: 
  assumes "transform ratecv st self = (x, self')"
  shows "enabled self' = enabled self"
proof
  fix s
  have "self' = self\<lparr>audio := audio self'\<rparr>" using assms by (rule transform_more)
  then have "enabled self' s = enabled (self\<lparr>audio := audio self'\<rparr>) s" by simp
  then show "enabled self' s = enabled self s" by (cases s) simp_all
qed

text \<open>
  C6. On a segment that is not stereo, \<open>surround_audio\<close> and
  \<open>apply_nd_audio_effect\<close> raise their \<open>ValueError\<close> (the unsupported channel layout)
  and leave the object, and so its audio, as it was.
\<close>

theorem pan_requires_stereo:
  "channels (audio self) \<noteq> 2 \<Longrightarrow>
     surround_audio self = (Some (ValueError ''Surround effect requires stereo audio.''), self) \<and>
     apply_nd_audio_effect self =
       (Some (ValueError ''N-D audio effect requires stereo input.''), self)"
  by (simp add: surround_audio_def apply_nd_audio_effect_def)

theorem pan_requires_stereo_witness:
  "channels (audio (default_maker \<lparr>samples = [4, 2], frame_rate = 44100, channels = 1\<rparr>)) \<noteq> 2 \<and>
   surround_audio (default_maker \<lparr>samples = [4, 2], frame_rate = 44100, channels = 1\<rparr>) =
     (Some (ValueError ''Surround effect requires stereo audio.''),
      default_maker \<lparr>samples = [4, 2], frame_rate = 44100, channels = 1\<rparr>) \<and>
   apply_nd_audio_effect (default_maker \<lparr>samples = [4, 2], frame_rate = 44100, channels = 1\<rparr>) =
     (Some (ValueError ''N-D audio effect requires stereo input.''),
      default_maker \<lparr>samples = [4, 2], frame_rate = 44100, channels = 1\<rparr>)"
proof -
  have h: "channels (audio (default_maker \<lparr>samples = [4, 2], frame_rate = 44100, channels = 1\<rparr>)) \<noteq> 2"
    by (simp add: default_maker_def)
  show ?thesis using h pan_requires_stereo [OF h] by simp
qed

lemma and_then_run:
  "and_then (run_stages ratecv sts self) (run_stages ratecv sts') = run_stages ratecv (sts @ sts') self"
proof (induction sts arbitrary: self)
  case Nil
  then show ?case by (simp add: and_then_def)
next
  case (Cons st sts)
  show ?case
  proof (cases "transform ratecv st self")
    case (Pair y s1)
    then show ?thesis using Cons.IH [of s1]
      by (cases y) (simp_all add: and_then_def)
  qed
qed

lemma run_stages_enabled:
  "run_stages ratecv sts self = (x, self') \<Longrightarrow> enabled self' = enabled self"
proof (induction sts arbitrary: self)
  case Nil then show ?case by simp
next
  case (Cons st sts)
  obtain y s1 where t: "transform ratecv st self = (y, s1)" by (cases "transform ratecv st self")
  then have e: "enabled s1 = enabled self" by (rule transform_enabled)
  show ?case
  proof (cases y)
    case None
    with Cons.prems t have "run_stages ratecv sts s1 = (x, self')" by simp
    then have "enabled self' = enabled s1" by (rule Cons.IH)
    with e show ?thesis by simp
  next
    case (Some a)
    with Cons.prems t have "self' = s1" by simp
    with e show ?thesis by simp
  qed
qed

lemma and_then_gated:
  "and_then (run_stages ratecv sts self)
     (\<lambda>s. if enabled s st then transform ratecv st s else (None, s)) =
   run_stages ratecv (sts @ filter (enabled self) [st]) self"
proof (cases "run_stages ratecv sts self")
  case (Pair x s1)
  then have e: "enabled s1 = enabled self" by (rule run_stages_enabled)
  show ?thesis
  proof (cases x)
    case None
    have "and_then (run_stages ratecv sts self) (run_stages ratecv (filter (enabled self) [st]))
          = run_stages ratecv (sts @ filter (enabled self) [st]) self"
      by (rule and_then_run)
    moreover have "and_then (run_stages ratecv sts self)
        (\<lambda>s. if enabled s st then transform ratecv st s else (None, s))
      = and_then (run_stages ratecv sts self) (run_stages ratecv (filter (enabled self) [st]))"
      using Pair None e by (auto simp: and_then_def split: prod.splits option.splits)
    ultimately show ?thesis by simp
  next
    case (Some a)
    have "and_then (run_stages ratecv sts self) (run_stages ratecv (filter (enabled self) [st]))
          = run_stages ratecv (sts @ filter (enabled self) [st]) self"
      by (rule and_then_run)
    moreover have "and_then (run_stages ratecv sts self)
        (\<lambda>s. if enabled s st then transform ratecv st s else (None, s))
      = and_then (run_stages ratecv sts self) (run_stages ratecv (filter (enabled self) [st]))"
      using Pair Some by (simp add: and_then_def)
    ultimately show ?thesis by simp
  qed
qed

text \<open>
  C5. For every setting of the four flags, \<open>process\<close> runs the enabled transforms in
  the order Speed, Reverb, Surround, Dimension, passes the object unchanged over a
  disabled one, and runs Normalize last in every configuration (a transform that raises
  ends the run, as \<open>run_stages\<close> does).
\<close>

theorem process_order:
  "process ratecv self =
     run_stages ratecv (filter (enabled self) [Speed, Reverb, Surround, Dimension] @ [Normalize]) self"
proof -
  have s0: "(if slow_down self then slow_audio ratecv self else (None, self)) =
        and_then (run_stages ratecv [] self)
          (\<lambda>s. if enabled s Speed then transform ratecv Speed s else (None, s))"
    by (simp add: and_then_def)
  have n: "normalize_audio = run_stages ratecv [Normalize]"
    by (auto simp: fun_eq_iff split: prod.splits option.splits)
  have r: "(\<lambda>self. if reverb self then reverb_audio self else (None, self)) =
      (\<lambda>s. if enabled s Reverb then transform ratecv Reverb s else (None, s))"
    by (simp add: fun_eq_iff)
  have su: "(\<lambda>self. if surround self then surround_audio self else (None, self)) =
      (\<lambda>s. if enabled s Surround then transform ratecv Surround s else (None, s))"
    by (simp add: fun_eq_iff)
  have d: "(\<lambda>self. if dimension self then apply_nd_audio_effect self else (None, self)) =
      (\<lambda>s. if enabled s Dimension then transform ratecv Dimension s else (None, s))"
    by (simp add: fun_eq_iff)
  have l: "((([] @ filter (enabled self) [Speed]) @ filter (enabled self) [Reverb]) @
             filter (enabled self) [Surround]) @ filter (enabled self) [Dimension]
           = filter (enabled self) [Speed, Reverb, Surround, Dimension]"
    by simp
  have "process ratecv self =
     run_stages ratecv
       ((((([] @ filter (enabled self) [Speed]) @ filter (enabled self) [Reverb]) @
             filter (enabled self) [Surround]) @ filter (enabled self) [Dimension]) @ [Normalize]) self"
    unfolding process_def s0 r su d n and_then_gated and_then_run ..
  then show ?thesis unfolding l .
qed

theorem process_order_witness:
  "process (\<lambda>xs c i r. xs)
     ((default_maker \<lparr>samples = [4, 2], frame_rate = 44100, channels = 1\<rparr>)
        \<lparr>slow_down := False, reverb := False, surround := True\<rparr>) =
   (Some (ValueError ''Surround effect requires stereo audio.''),
    (default_maker \<lparr>samples = [4, 2], frame_rate = 44100, channels = 1\<rparr>)
        \<lparr>slow_down := False, reverb := False, surround := True\<rparr>)"
  using process_order [of "\<lambda>xs c i r. xs"
     "(default_maker \<lparr>samples = [4, 2], frame_rate = 44100, channels = 1\<rparr>)
        \<lparr>slow_down := False, reverb := False, surround := True\<rparr>"]
  by (simp add: default_maker_def surround_audio_def)

subsection \<open>The echo loop\<close>

lemma slice_index_pos: "0 \<le> k \<Longrightarrow> slice_index k n = min (nat k) n"
  by (simp add: slice_index_def)

lemma slice_index_neg: "0 < k \<Longrightarrow> slice_index (- k) n = n - nat k"
  by (auto simp: slice_index_def max_def)

lemma echo_slice_pos:
  assumes "0 < k"
  shows "assign_slice_from (map (\<lambda>_. z) smp) k (map f (slice_to smp (- k))) =
           Inr (replicate (min (nat k) (length smp)) z @ map f (take (length smp - nat k) smp))"
proof -
  let ?n = "length smp"
  let ?s = "min (nat k) ?n"
  have a: "slice_index k (length (map (\<lambda>_. z) smp)) = ?s"
    using assms by (simp add: slice_index_pos)
  have b: "slice_index (- k) ?n = ?n - nat k"
    using assms by (rule slice_index_neg)
  have "take ?s (map (\<lambda>_. z) smp) = map (\<lambda>_. z) (take ?s smp)"
    by (rule take_map)
  also have "\<dots> = replicate (length (take ?s smp)) z"
    by (rule map_replicate_const)
  also have "length (take ?s smp) = ?s" by simp
  finally have c: "take ?s (map (\<lambda>_. z) smp) = replicate ?s z" .
  have l: "length (map f (take (?n - nat k) smp)) = length (map (\<lambda>_. z) smp) - ?s"
    by (simp add: min_def)
  show ?thesis
    unfolding assign_slice_from_def slice_to_def Let_def a b
    by (simp only: l c simp_thms if_True)
qed

lemma echo_slice_zero:
  "smp \<noteq> [] \<Longrightarrow> assign_slice_from (map (\<lambda>_. z) smp) 0 (map f (slice_to smp (- 0))) =
      Inl (ValueError ''could not broadcast input array'')"
  by (simp add: assign_slice_from_def slice_to_def slice_index_def)

lemma echo_loop_append:
  "echo_loop sc ad z d c smp out (is @ js) =
     (case echo_loop sc ad z d c smp out is of
        Inl e \<Rightarrow> Inl e
      | Inr out' \<Rightarrow> echo_loop sc ad z d c smp out' js)"
  by (induction "is" arbitrary: out) (auto split: sum.splits)

lemma upto_Suc: "[1 .. int (Suc r)] = [1 .. int r] @ [int r + 1]"
  using upto_rec2 [of 1 "int (Suc r)"] by (simp add: add.commute)

lemma echo_loop_mono:
  assumes "0 < d"
  shows "echo_loop (*) (+) 0 d decay xs xs [1 .. int r] = Inr (echo_sum (nat d) decay xs r)"
proof (induction r)
  case 0
  then show ?case by simp
next
  case (Suc r)
  have k: "0 < d * (int r + 1)" using assms by simp
  have n: "nat (d * (int r + 1)) = nat d * Suc r"
    using assms by (simp add: nat_mult_distrib nat_add_distrib)
  have m: "nat (int r + 1) = Suc r" by simp
  have sl: "assign_slice_from (map (\<lambda>_. 0) xs) (d * (int r + 1))
              (map (\<lambda>x. x * decay ^ nat (int r + 1)) (slice_to xs (- d * (int r + 1))))
           = Inr (delayed_copy (nat d * Suc r) (decay ^ Suc r) xs)"
    using echo_slice_pos [OF k, of "0::real" xs "\<lambda>x. x * decay ^ nat (int r + 1)"]
    unfolding delayed_copy_def n m by simp
  show ?case
    unfolding upto_Suc echo_loop_append Suc.IH
    using sl by simp
qed

lemma assign_slice_map:
  "assign_slice_from (map h xs) k (map h ys) = map_sum id (map h) (assign_slice_from xs k ys)"
  by (cases ys) (auto simp: assign_slice_from_def Let_def take_map)

lemma echo_loop_map:
  assumes sc: "\<And>x c. h (sc x c) = sc' (h x) c"
      and ad: "\<And>x y. h (ad x y) = ad' (h x) (h y)"
      and z: "h z = z'"
  shows "echo_loop sc' ad' z' d c (map h smp) (map h out) is =
           map_sum id (map h) (echo_loop sc ad z d c smp out is)"
proof (induction "is" arbitrary: out)
  case Nil
  then show ?case by simp
next
  case (Cons i "is")
  have a: "map (\<lambda>_. z') (map h smp) = map h (map (\<lambda>_. z) smp)" by (simp add: z)
  have b: "map (\<lambda>x. sc' x (c ^ nat i)) (slice_to (map h smp) (- d * i)) =
           map h (map (\<lambda>x. sc x (c ^ nat i)) (slice_to smp (- d * i)))"
    by (simp add: slice_to_def take_map sc)
  have s: "assign_slice_from (map (\<lambda>_. z') (map h smp)) (d * i)
             (map (\<lambda>x. sc' x (c ^ nat i)) (slice_to (map h smp) (- d * i))) =
           map_sum id (map h)
             (assign_slice_from (map (\<lambda>_. z) smp) (d * i)
                (map (\<lambda>x. sc x (c ^ nat i)) (slice_to smp (- d * i))))"
    unfolding a b by (rule assign_slice_map)
  show ?case
  proof (cases "assign_slice_from (map (\<lambda>_. z) smp) (d * i)
                (map (\<lambda>x. sc x (c ^ nat i)) (slice_to smp (- d * i)))")
    case (Inl e)
    then show ?thesis using s by simp
  next
    case (Inr atten)
    have m: "map2 ad' (map h out) (map h atten) = map h (map2 ad out atten)"
      by (induction out atten rule: list_induct2') (simp_all add: ad)
    show ?thesis using s Inr Cons.IH [of "map2 ad out atten"] by (simp add: m)
  qed
qed

subsection \<open>Peaks and channels\<close>

lemma fold_max_ge: "(a::'a::linorder) \<le> fold max xs a"
  by (induction xs arbitrary: a) (auto intro: order_trans [OF max.cobounded2])

lemma fold_max_mem: "x \<in> set xs \<Longrightarrow> (x::'a::linorder) \<le> fold max xs a"
proof (induction xs arbitrary: a)
  case Nil
  then show ?case by simp
next
  case (Cons y ys)
  show ?case
  proof (cases "x = y")
    case True
    have "x \<le> max y a" using True by simp
    also have "\<dots> \<le> fold max ys (max y a)" by (rule fold_max_ge)
    finally show ?thesis by simp
  next
    case False
    with Cons.prems have "x \<in> set ys" by simp
    then show ?thesis using Cons.IH by simp
  qed
qed

lemma fold_max_cases: "fold max xs a = (a::'a::linorder) \<or> fold max xs a \<in> set xs"
proof (induction xs arbitrary: a)
  case Nil
  then show ?case by simp
next
  case (Cons y ys)
  show ?case using Cons.IH [of "max y a"] by (auto simp: max_def split: if_splits)
qed

lemma peak_nonneg: "0 \<le> peak xs"
  unfolding peak_def by (rule fold_max_ge)

lemma peak_ge: "x \<in> set xs \<Longrightarrow> \<bar>x\<bar> \<le> peak xs"
  unfolding peak_def by (rule fold_max_mem) simp

lemma peak_attained: "xs \<noteq> [] \<Longrightarrow> \<exists>x\<in>set xs. \<bar>x\<bar> = peak xs"
proof -
  assume ne: "xs \<noteq> []"
  have "peak xs = 0 \<or> peak xs \<in> set (map abs xs)"
    unfolding peak_def by (rule fold_max_cases)
  then show ?thesis
  proof
    assume z: "peak xs = 0"
    obtain x where x: "x \<in> set xs" using ne by (cases xs) auto
    then have "\<bar>x\<bar> \<le> 0" using peak_ge [OF x] z by simp
    then have "\<bar>x\<bar> = peak xs" using z by simp
    with x show ?thesis by blast
  next
    assume "peak xs \<in> set (map abs xs)"
    then show ?thesis by auto
  qed
qed

lemma peak_zero_iff: "peak xs = 0 \<longleftrightarrow> (\<forall>x\<in>set xs. x = 0)"
proof
  assume z: "peak xs = 0"
  show "\<forall>x\<in>set xs. x = 0"
  proof
    fix x assume "x \<in> set xs"
    then have "\<bar>x\<bar> \<le> peak xs" by (rule peak_ge)
    with z show "x = 0" by simp
  qed
next
  assume a: "\<forall>x\<in>set xs. x = 0"
  show "peak xs = 0"
  proof (cases "xs = []")
    case True
    then show ?thesis by (simp add: peak_def)
  next
    case False
    then obtain x where "x \<in> set xs" "\<bar>x\<bar> = peak xs" using peak_attained by blast
    with a show ?thesis by auto
  qed
qed

lemma np_max_abs: "xs \<noteq> [] \<Longrightarrow> np_max (map abs xs) = Inr (peak xs)"
  by (cases xs) (simp_all add: peak_def)

lemma normalize_peak_eq:
  assumes "peak xs \<noteq> 0"
  shows "normalize_peak xs = Inr (map (\<lambda>x. Some (x / peak xs)) xs)"
proof -
  have "xs \<noteq> []" using assms by (auto simp: peak_def)
  then show ?thesis using assms by (simp add: normalize_peak_def np_max_abs)
qed

lemma normalize_peak_silent:
  assumes "xs \<noteq> []" "peak xs = 0"
  shows "normalize_peak xs = Inr (map (\<lambda>x. None) xs)"
  using assms by (simp add: normalize_peak_def np_max_abs)

lemma reshape2_even:
  "even (length xs) \<Longrightarrow>
     \<exists>fs. reshape2 xs = Inr fs \<and> map fst fs = left_channel xs \<and> map snd fs = right_channel xs"
  by (induction xs rule: reshape2.induct) auto

lemma flatten_interleave: "flatten fs = interleave (map fst fs) (map snd fs)"
  by (induction fs rule: flatten.induct) auto

lemma interleave_channels: "even (length xs) \<Longrightarrow> interleave (left_channel xs) (right_channel xs) = xs"
  by (induction xs rule: left_channel.induct) auto

lemma upto_nat: "[1 .. r] = [1 .. int (nat r)]"
  by (cases "0 \<le> r") simp_all

lemma length_delayed_copy [simp]: "length (delayed_copy k g xs) = length xs"
  by (auto simp: delayed_copy_def min_def)

lemma length_echo_sum [simp]: "length (echo_sum d decay xs r) = length xs"
  by (induction r) simp_all

lemma echo_loop_stereo:
  assumes "0 < d"
  shows "\<exists>out. echo_loop frame_scale frame_add (0, 0) d decay fs fs [1 .. int r] = Inr out \<and>
           map fst out = echo_sum (nat d) decay (map fst fs) r \<and>
           map snd out = echo_sum (nat d) decay (map snd fs) r"
proof -
  have l: "echo_loop (*) (+) 0 d decay (map fst fs) (map fst fs) [1 .. int r] =
        map_sum id (map fst) (echo_loop frame_scale frame_add (0, 0) d decay fs fs [1 .. int r])"
    by (rule echo_loop_map) (simp_all add: frame_scale_def frame_add_def)
  have r: "echo_loop (*) (+) 0 d decay (map snd fs) (map snd fs) [1 .. int r] =
        map_sum id (map snd) (echo_loop frame_scale frame_add (0, 0) d decay fs fs [1 .. int r])"
    by (rule echo_loop_map) (simp_all add: frame_scale_def frame_add_def)
  show ?thesis
  proof (cases "echo_loop frame_scale frame_add (0, 0) d decay fs fs [1 .. int r]")
    case (Inl e)
    then show ?thesis using l echo_loop_mono [OF assms, of decay "map fst fs" r] by simp
  next
    case (Inr out)
    then show ?thesis
      using l r echo_loop_mono [OF assms, of decay "map fst fs" r]
        echo_loop_mono [OF assms, of decay "map snd fs" r]
      by simp
  qed
qed

lemma nth_delayed_copy:
  assumes "j < length xs"
  shows "delayed_copy k g xs ! j = (if j < k then 0 else xs ! (j - k) * g)"
proof (cases "j < k")
  case True
  then have "j < length (replicate (min k (length xs)) (0::real))" using assms by simp
  then have "delayed_copy k g xs ! j = replicate (min k (length xs)) 0 ! j"
    unfolding delayed_copy_def by (simp only: nth_append if_True)
  also have "\<dots> = 0" using True assms by simp
  finally show ?thesis using True by simp
next
  case False
  then have m: "min k (length xs) = k" using assms by simp
  have l: "j - k < length xs - k" using False assms by simp
  have "delayed_copy k g xs ! j = map (\<lambda>x. x * g) (take (length xs - k) xs) ! (j - k)"
    unfolding delayed_copy_def using False by (simp add: nth_append m)
  also have "\<dots> = xs ! (j - k) * g" using l by simp
  finally show ?thesis using False by simp
qed

lemma nth_echo_sum_head:
  assumes "j < length xs"
      and "\<And>i. 1 \<le> i \<Longrightarrow> i \<le> r \<Longrightarrow> d * i \<le> j \<Longrightarrow> xs ! (j - d * i) = 0"
  shows "echo_sum d decay xs r ! j = xs ! j"
  using assms
proof (induction r)
  case 0
  then show ?case by simp
next
  case (Suc r)
  have ih: "echo_sum d decay xs r ! j = xs ! j"
    using Suc.prems by (intro Suc.IH) auto
  have c: "delayed_copy (d * Suc r) (decay ^ Suc r) xs ! j =
           (if j < d * Suc r then 0 else xs ! (j - d * Suc r) * decay ^ Suc r)"
    using Suc.prems(1) by (rule nth_delayed_copy)
  have "\<not> j < d * Suc r \<Longrightarrow> xs ! (j - d * Suc r) = 0"
    using Suc.prems(2) [of "Suc r"] by simp
  then have z: "delayed_copy (d * Suc r) (decay ^ Suc r) xs ! j = 0"
    unfolding c by (cases "j < d * Suc r") simp_all
  have "echo_sum d decay xs (Suc r) ! j =
        echo_sum d decay xs r ! j + delayed_copy (d * Suc r) (decay ^ Suc r) xs ! j"
    using Suc.prems(1) by (simp del: power_Suc mult_Suc_right)
  then show ?case unfolding ih z by simp
qed

lemma take_echo_sum: "take d (echo_sum d decay xs r) = take d xs"
proof (rule nth_equalityI)
  show "length (take d (echo_sum d decay xs r)) = length (take d xs)" by simp
next
  fix j assume "j < length (take d (echo_sum d decay xs r))"
  then have j: "j < d" "j < length xs" by simp_all
  have "echo_sum d decay xs r ! j = xs ! j"
  proof (rule nth_echo_sum_head [OF j(2)])
    fix i :: nat assume "1 \<le> i" "d * i \<le> j"
    then have "d \<le> j" by (metis One_nat_def le_trans mult.right_neutral mult_le_mono2)
    with j(1) show "xs ! (j - d * i) = 0" by simp
  qed
  with j show "take d (echo_sum d decay xs r) ! j = take d xs ! j" by simp
qed

lemma echo_sum_nonsilent:
  assumes d: "0 < d" and x: "\<exists>x\<in>set xs. x \<noteq> 0"
  shows "\<exists>y\<in>set (echo_sum d decay xs r). y \<noteq> 0"
proof -
  from x obtain j where "j < length xs \<and> xs ! j \<noteq> 0" by (auto simp: in_set_conv_nth)
  then obtain k where k: "k < length xs \<and> xs ! k \<noteq> 0"
      and least: "\<And>i. i < k \<Longrightarrow> \<not> (i < length xs \<and> xs ! i \<noteq> 0)"
    using exists_least_iff [of "\<lambda>j. j < length xs \<and> xs ! j \<noteq> 0"] by blast
  have "echo_sum d decay xs r ! k = xs ! k"
  proof (rule nth_echo_sum_head)
    show "k < length xs" using k by simp
  next
    fix i :: nat assume i: "1 \<le> i" "d * i \<le> k"
    have p: "0 < d * i" using d i(1) by simp
    then have "0 < k" using i(2) by (rule less_le_trans)
    with p have "k - d * i < k" by (rule diff_less)
    then show "xs ! (k - d * i) = 0" using least [of "k - d * i"] k by auto
  qed
  then have "echo_sum d decay xs r ! k \<noteq> 0" using k by simp
  moreover have "echo_sum d decay xs r ! k \<in> set (echo_sum d decay xs r)"
    using k by simp
  ultimately show ?thesis by blast
qed

lemma echo_sum_silent:
  assumes "\<forall>x\<in>set xs. x = 0"
  shows "echo_sum d decay xs r = xs"
proof -
  have xs: "xs = replicate (length xs) 0"
    using assms by (simp add: replicate_length_same)
  have dc: "\<And>k g. delayed_copy k g xs = xs"
  proof (rule nth_equalityI)
    fix k g j assume "j < length (delayed_copy k g xs)"
    then have j: "j < length xs" by simp
    have "\<And>i. i < length xs \<Longrightarrow> xs ! i = 0" using assms by simp
    then show "delayed_copy k g xs ! j = xs ! j"
      using j by (simp add: nth_delayed_copy)
  qed simp
  have m: "map2 (+) xs xs = xs"
  proof (rule nth_equalityI)
    fix j assume "j < length (map2 (+) xs xs)"
    then have j: "j < length xs" by simp
    then have "xs ! j = 0" using assms by simp
    then show "map2 (+) xs xs ! j = xs ! j" using j by simp
  qed simp
  show ?thesis by (induction r) (simp_all add: dc m del: power_Suc)
qed

lemma take_interleave: "take (2 * d) (interleave ls rs) = interleave (take d ls) (take d rs)"
proof (induction ls rs arbitrary: d rule: interleave.induct)
  case (1 l ls r rs)
  then show ?case by (cases d) simp_all
qed simp_all

lemma set_interleave: "length ls = length rs \<Longrightarrow> set (interleave ls rs) = set ls \<union> set rs"
  by (induction ls rs rule: list_induct2) auto

lemma length_interleave: "length ls = length rs \<Longrightarrow> length (interleave ls rs) = 2 * length ls"
  by (induction ls rs rule: list_induct2) auto

lemma length_channels:
  "even (length xs) \<Longrightarrow> length (left_channel xs) = length xs div 2 \<and>
      length (right_channel xs) = length xs div 2"
  by (induction xs rule: left_channel.induct) auto

lemma set_channels:
  "even (length xs) \<Longrightarrow> set xs = set (left_channel xs) \<union> set (right_channel xs)"
  by (induction xs rule: left_channel.induct) auto

lemma left_channel_map: "left_channel (map f xs) = map f (left_channel xs)"
  by (induction xs rule: left_channel.induct) auto

lemma right_channel_map: "right_channel (map f xs) = map f (right_channel xs)"
  by (induction xs rule: right_channel.induct) auto

lemma length_reverb_sum:
  assumes "channels (audio self) = 2 \<longrightarrow> even (length (samples (audio self)))"
  shows "length (reverb_sum self) = length (samples (audio self))"
proof (cases "channels (audio self) = 2")
  case True
  let ?smp = "map real_of_int (samples (audio self))"
  have e: "even (length ?smp)" using assms True by simp
  have l: "length (left_channel ?smp) = length ?smp div 2"
          "length (right_channel ?smp) = length ?smp div 2"
    using length_channels [OF e] by simp_all
  show ?thesis
    using True e l by (simp add: reverb_sum_def per_channel_def length_interleave)
next
  case False
  then show ?thesis by (simp add: reverb_sum_def per_channel_def)
qed

lemma reverb_sum_nonsilent:
  assumes wf: "channels (audio self) = 2 \<longrightarrow> even (length (samples (audio self)))"
      and d: "1 \<le> delay_samples self"
      and x: "\<exists>s\<in>set (samples (audio self)). s \<noteq> 0"
  shows "peak (reverb_sum self) \<noteq> 0"
proof -
  let ?smp = "map real_of_int (samples (audio self))"
  let ?f = "\<lambda>xs. echo_sum (nat (delay_samples self)) (reverb_decay self) xs
                 (nat (reverb_repeats self))"
  have d0: "0 < nat (delay_samples self)" using d by simp
  have nz: "\<exists>x\<in>set ?smp. x \<noteq> 0" using x by auto
  have "\<exists>y\<in>set (reverb_sum self). y \<noteq> 0"
  proof (cases "channels (audio self) = 2")
    case False
    then show ?thesis
      using echo_sum_nonsilent [OF d0 nz] by (simp add: reverb_sum_def per_channel_def)
  next
    case True
    have e: "even (length ?smp)" using wf True by simp
    have l: "length (?f (left_channel ?smp)) = length (?f (right_channel ?smp))"
      using length_channels [OF e] by simp
    have s: "set (reverb_sum self) = set (?f (left_channel ?smp)) \<union> set (?f (right_channel ?smp))"
      using True set_interleave [OF l] by (simp add: reverb_sum_def per_channel_def)
    from nz set_channels [OF e]
    have "(\<exists>x\<in>set (left_channel ?smp). x \<noteq> 0) \<or> (\<exists>x\<in>set (right_channel ?smp). x \<noteq> 0)"
      by blast
    then show ?thesis
    proof
      assume "\<exists>x\<in>set (left_channel ?smp). x \<noteq> 0"
      from echo_sum_nonsilent [OF d0 this] show ?thesis unfolding s by blast
    next
      assume "\<exists>x\<in>set (right_channel ?smp). x \<noteq> 0"
      from echo_sum_nonsilent [OF d0 this] show ?thesis unfolding s by blast
    qed
  qed
  then show ?thesis by (simp add: peak_zero_iff)
qed

lemma py_int_bounds: "\<bar>v\<bar> \<le> of_int m \<Longrightarrow> \<bar>py_int v\<bar> \<le> m"
  unfolding py_int_def by (auto simp: abs_le_iff le_floor_iff floor_le_iff ceiling_le_iff le_ceiling_iff) linarith+

lemma astype_int16_in_range: "\<bar>v\<bar> \<le> 32767 \<Longrightarrow> astype_int16 v = py_int v"
proof -
  assume "\<bar>v\<bar> \<le> 32767"
  then have "\<bar>py_int v\<bar> \<le> 32767" using py_int_bounds [of v 32767] by simp
  then show ?thesis by (simp add: astype_int16_def)
qed

lemma py_int_close: "\<bar>real_of_int (py_int v) - v\<bar> < 1"
proof (cases "0 \<le> v")
  case True
  then have "py_int v = \<lfloor>v\<rfloor>" by (simp add: py_int_def)
  then show ?thesis by linarith
next
  case False
  then have "py_int v = \<lceil>v\<rceil>" by (simp add: py_int_def)
  then show ?thesis by linarith
qed

lemma to_int16_Some: "map to_int16 (map (\<lambda>x. Some (x / p)) xs) = map (\<lambda>x. astype_int16 (x / p * 32767)) xs"
  by (simp add: to_int16_def)

lemma to_int16_None: "map to_int16 (map (\<lambda>x. None) xs) = map (\<lambda>x. 0) xs"
  by (simp add: to_int16_def nan_int16_def)

lemma map_zero_id: "\<forall>x\<in>set xs. x = (0::int) \<Longrightarrow> map (\<lambda>x. 0) xs = xs"
  by (induction xs) simp_all

lemma close_map:
  assumes "\<And>x. x \<in> set xs \<Longrightarrow> \<bar>real_of_int (f x) - g x\<bar> \<le> 2"
  shows "close (map f xs) (map g xs)"
  unfolding close_def using assms by (induction xs) simp_all

lemma close_take: "close ys vs \<Longrightarrow> close (take n ys) (take n vs)"
  unfolding close_def by (rule list_all2_takeI)

lemma close_length: "close ys vs \<Longrightarrow> length ys = length vs"
  unfolding close_def by (rule list_all2_lengthD)

subsection \<open>reverb\_audio in closed form\<close>

lemma reverb_output_rounds:
  assumes wf: "channels (audio self) = 2 \<longrightarrow> even (length (samples (audio self)))"
      and d: "1 \<le> delay_samples self"
  shows "reverb_output self = normalize_peak (reverb_sum self)"
proof -
  let ?smp = "map real_of_int (samples (audio self))"
  let ?r = "nat (reverb_repeats self)"
  have u: "[1 .. reverb_repeats self] = [1 .. int ?r]" by (rule upto_nat)
  have d0: "0 < delay_samples self" using d by simp
  show ?thesis
  proof (cases "channels (audio self) = 2")
    case False
    have e: "echo_loop (*) (+) 0 (delay_samples self) (reverb_decay self) ?smp ?smp [1 .. int ?r]
               = Inr (reverb_sum self)"
      using False echo_loop_mono [OF d0, of "reverb_decay self" ?smp ?r]
      by (simp only: reverb_sum_def per_channel_def if_False)
    show ?thesis
      unfolding reverb_output_def Let_def u e
      using False by simp
  next
    case True
    have "even (length ?smp)" using wf True by simp
    then obtain fs where fs: "reshape2 ?smp = Inr fs" "map fst fs = left_channel ?smp"
        "map snd fs = right_channel ?smp"
      using reshape2_even by blast
    obtain out where out:
       "echo_loop frame_scale frame_add (0, 0) (delay_samples self) (reverb_decay self) fs fs
          [1 .. int ?r] = Inr out"
       "map fst out = echo_sum (nat (delay_samples self)) (reverb_decay self) (map fst fs) ?r"
       "map snd out = echo_sum (nat (delay_samples self)) (reverb_decay self) (map snd fs) ?r"
      using echo_loop_stereo [OF d0] by blast
    have f: "flatten out = reverb_sum self"
      using True by (simp add: flatten_interleave out fs reverb_sum_def per_channel_def)
    show ?thesis
      unfolding reverb_output_def Let_def u fs(1)
      using True out(1) by (simp add: f)
  qed
qed

lemma reverb_output_eq:
  assumes wf: "channels (audio self) = 2 \<longrightarrow> even (length (samples (audio self)))"
      and d: "1 \<le> delay_samples self"
      and p: "peak (reverb_sum self) \<noteq> 0"
  shows "reverb_output self = Inr (map (\<lambda>x. Some (x / peak (reverb_sum self))) (reverb_sum self))"
  unfolding reverb_output_rounds [OF wf d] using p by (rule normalize_peak_eq)

lemma reverb_audio_eq:
  assumes wf: "channels (audio self) = 2 \<longrightarrow> even (length (samples (audio self)))"
      and d: "1 \<le> delay_samples self"
      and p: "peak (reverb_sum self) \<noteq> 0"
  shows "reverb_audio self =
           (None, self\<lparr>audio := (audio self)\<lparr>samples :=
              map astype_int16 (full_scale (reverb_sum self))\<rparr>\<rparr>)"
  unfolding reverb_audio_def reverb_output_eq [OF wf d p] sum.case to_int16_Some
  by (simp add: assign_audio_def full_scale_def comp_def)

lemma full_scale_bound:
  assumes "x \<in> set xs" "peak xs \<noteq> 0"
  shows "\<bar>x / peak xs * 32767\<bar> \<le> 32767"
proof -
  have p: "0 < peak xs" using assms(2) peak_nonneg [of xs] by simp
  have "\<bar>x\<bar> \<le> peak xs" using assms(1) by (rule peak_ge)
  then have "\<bar>x\<bar> / peak xs \<le> 1" using p by simp
  then have "\<bar>x / peak xs\<bar> \<le> 1" using p by simp
  then have "\<bar>x / peak xs\<bar> * 32767 \<le> 1 * 32767" by (intro mult_right_mono) simp_all
  then show ?thesis by (simp add: abs_mult)
qed

lemma full_scale_int16:
  assumes "y \<in> set (map astype_int16 (full_scale xs))" "peak xs \<noteq> 0"
  shows "\<bar>y\<bar> \<le> 32767"
proof -
  from assms(1) obtain x where x: "x \<in> set xs" "y = astype_int16 (x / peak xs * 32767)"
    by (auto simp: full_scale_def)
  have b: "\<bar>x / peak xs * 32767\<bar> \<le> 32767" using x(1) assms(2) by (rule full_scale_bound)
  then have "y = py_int (x / peak xs * 32767)" using x(2) by (simp add: astype_int16_in_range)
  then show ?thesis using py_int_bounds [of "x / peak xs * 32767" 32767] b by simp
qed

lemma fold_max_abs_eqI:
  fixes M :: "'a::linordered_idom"
  assumes "\<forall>x\<in>set xs. \<bar>x\<bar> \<le> M" and "\<exists>x\<in>set xs. \<bar>x\<bar> = M"
  shows "fold max (map abs xs) 0 = M"
proof -
  let ?F = "fold max (map abs xs) 0"
  from assms(2) obtain x where x: "x \<in> set xs" "\<bar>x\<bar> = M" by blast
  have "\<bar>x\<bar> \<in> set (map abs xs)" using x(1) by simp
  then have ge: "M \<le> ?F" using fold_max_mem [of "\<bar>x\<bar>" "map abs xs" 0] x(2) by simp
  have "?F = 0 \<or> ?F \<in> set (map abs xs)" by (rule fold_max_cases)
  then have "?F \<le> M"
  proof
    assume "?F = 0"
    then show ?thesis using x(2) by simp
  next
    assume "?F \<in> set (map abs xs)"
    then show ?thesis using assms(1) by auto
  qed
  with ge show ?thesis by simp
qed

lemma peak_full_scale:
  assumes "peak xs \<noteq> 0"
  shows "peak (full_scale xs) = 32767"
proof -
  have p: "0 < peak xs" using assms peak_nonneg [of xs] by simp
  have ne: "xs \<noteq> []" using assms by (auto simp: peak_def)
  then obtain x where x: "x \<in> set xs" "\<bar>x\<bar> = peak xs" using peak_attained by blast
  have b: "\<forall>y\<in>set (full_scale xs). \<bar>y\<bar> \<le> 32767"
    using full_scale_bound assms by (auto simp: full_scale_def)
  have "\<bar>x / peak xs * 32767\<bar> = 32767" using x(2) p by (simp add: abs_mult)
  then have "\<exists>y\<in>set (full_scale xs). \<bar>y\<bar> = 32767"
    using x(1) by (auto simp: full_scale_def)
  with b show ?thesis unfolding peak_def by (rule fold_max_abs_eqI)
qed

lemma max_amplitude_full_scale:
  assumes "peak xs \<noteq> 0"
  shows "max_amplitude (a\<lparr>samples := map astype_int16 (full_scale xs)\<rparr>) = 32767"
proof -
  have p: "0 < peak xs" using assms peak_nonneg [of xs] by simp
  have ne: "xs \<noteq> []" using assms by (auto simp: peak_def)
  then obtain x where x: "x \<in> set xs" "\<bar>x\<bar> = peak xs" using peak_attained by blast
  have b: "\<forall>y\<in>set (map astype_int16 (full_scale xs)). \<bar>y\<bar> \<le> 32767"
    using full_scale_int16 assms by blast
  have "x = peak xs \<or> x = - peak xs" using x(2) by (cases "0 \<le> x") simp_all
  then have "x / peak xs = 1 \<or> x / peak xs = - 1" using p by auto
  moreover have "astype_int16 (1 * 32767) = 32767" "astype_int16 (- 1 * 32767) = - 32767"
    by (simp_all add: astype_int16_def py_int_def)
  ultimately have "\<bar>astype_int16 (x / peak xs * 32767)\<bar> = 32767"
    by (elim disjE) (simp_all only: abs_minus_cancel abs_numeral)
  then have "\<exists>y\<in>set (map astype_int16 (full_scale xs)). \<bar>y\<bar> = 32767"
    using x(1) by (auto simp: full_scale_def)
  with b have "fold max (map abs (map astype_int16 (full_scale xs))) 0 = 32767"
    by (rule fold_max_abs_eqI)
  moreover have "samples (a\<lparr>samples := map astype_int16 (full_scale xs)\<rparr>) =
      map astype_int16 (full_scale xs)"
    by simp
  ultimately show ?thesis unfolding max_amplitude_def by (simp only:)
qed

lemma close_full_scale:
  assumes "peak xs \<noteq> 0"
  shows "close (map astype_int16 (full_scale xs)) (full_scale xs)"
proof -
  have "close (map (\<lambda>x. astype_int16 (x / peak xs * 32767)) xs)
          (map (\<lambda>x. x / peak xs * 32767) xs)"
  proof (rule close_map)
    fix x assume "x \<in> set xs"
    then have "\<bar>x / peak xs * 32767\<bar> \<le> 32767" using assms by (rule full_scale_bound)
    then have "astype_int16 (x / peak xs * 32767) = py_int (x / peak xs * 32767)"
      by (rule astype_int16_in_range)
    then show "\<bar>real_of_int (astype_int16 (x / peak xs * 32767)) - x / peak xs * 32767\<bar> \<le> 2"
      using py_int_close [of "x / peak xs * 32767"] by simp
  qed
  then show ?thesis by (simp add: full_scale_def comp_def)
qed


lemma upto_1_2: "[1 .. 2::int] = [1, 2]"
  by (simp add: upto.simps)

lemmas reverb_eval =
  reverb_audio_def reverb_output_def delay_samples_def default_maker_def py_int_def
  assign_slice_from_def slice_to_def slice_index_def assign_audio_def normalize_peak_def
  frame_scale_def frame_add_def astype_int16_def to_int16_def nan_int16_def Let_def upto_1_2

lemma reverb_output_no_rounds:
  assumes wf: "channels (audio self) = 2 \<longrightarrow> even (length (samples (audio self)))"
      and r: "reverb_repeats self \<le> 0"
  shows "reverb_output self = normalize_peak (map of_int (samples (audio self)))"
proof -
  let ?smp = "map real_of_int (samples (audio self))"
  have u: "[1 .. reverb_repeats self] = []" using r by simp
  show ?thesis
  proof (cases "channels (audio self) = 2")
    case False
    then show ?thesis unfolding reverb_output_def Let_def u by simp
  next
    case True
    have e: "even (length ?smp)" using wf True by simp
    then obtain fs where fs: "reshape2 ?smp = Inr fs" "map fst fs = left_channel ?smp"
        "map snd fs = right_channel ?smp"
      using reshape2_even by blast
    have f: "flatten fs = ?smp"
      unfolding flatten_interleave fs using e by (rule interleave_channels)
    show ?thesis
      unfolding reverb_output_def Let_def u fs(1) using True by (simp add: f)
  qed
qed

lemma reverb_output_no_delay:
  assumes wf: "channels (audio self) = 2 \<longrightarrow> even (length (samples (audio self)))"
      and d: "delay_samples self = 0"
      and r: "1 \<le> reverb_repeats self"
      and ne: "samples (audio self) \<noteq> []"
  shows "reverb_output self = Inl (ValueError ''could not broadcast input array'')"
proof -
  let ?smp = "map real_of_int (samples (audio self))"
  have u: "[1 .. reverb_repeats self] = 1 # [1 + 1 .. reverb_repeats self]"
    using r by (rule upto_rec1)
  have z: "\<And>sc ad z c smp out is. smp \<noteq> [] \<Longrightarrow>
      echo_loop sc ad z 0 c smp out (1 # is) = Inl (ValueError ''could not broadcast input array'')"
    using echo_slice_zero by (simp add: assign_slice_from_def slice_to_def slice_index_def)
  show ?thesis
  proof (cases "channels (audio self) = 2")
    case False
    have "?smp \<noteq> []" using ne by simp
    then show ?thesis
      unfolding reverb_output_def Let_def u d using False by (simp add: z del: echo_loop.simps)
  next
    case True
    have e: "even (length ?smp)" using wf True by simp
    then obtain fs where fs: "reshape2 ?smp = Inr fs" "map fst fs = left_channel ?smp"
        "map snd fs = right_channel ?smp"
      using reshape2_even by blast
    have "flatten fs = ?smp"
      unfolding flatten_interleave fs using e by (rule interleave_channels)
    then have "fs \<noteq> []" using ne by auto
    then show ?thesis
      unfolding reverb_output_def Let_def u d fs(1) using True by (simp add: z del: echo_loop.simps)
  qed
qed

lemma reverb_sum_silent:
  assumes wf: "channels (audio self) = 2 \<longrightarrow> even (length (samples (audio self)))"
      and s: "\<forall>s\<in>set (samples (audio self)). s = 0"
  shows "reverb_sum self = map of_int (samples (audio self))"
proof (cases "channels (audio self) = 2")
  case False
  have "\<forall>x\<in>set (map real_of_int (samples (audio self))). x = 0" using s by simp
  then show ?thesis using False by (simp add: reverb_sum_def per_channel_def echo_sum_silent)
next
  case True
  let ?smp = "map real_of_int (samples (audio self))"
  have e: "even (length ?smp)" using wf True by simp
  have z: "\<forall>x\<in>set ?smp. x = 0" using s by simp
  have "\<forall>x\<in>set (left_channel ?smp). x = 0" "\<forall>x\<in>set (right_channel ?smp). x = 0"
    using z set_channels [OF e] by blast+
  then show ?thesis
    using True interleave_channels [OF e]
    by (simp add: reverb_sum_def per_channel_def echo_sum_silent)
qed

lemma fold_max_zero: "(\<forall>x\<in>set xs. x = (0::int)) \<Longrightarrow> fold max (map abs xs) 0 = 0"
  by (induction xs) simp_all

text \<open>
  C1 (amended). On a non-empty all-zero buffer (reverb delay of at least one frame)
  \<open>reverb_audio\<close> and then \<open>normalize_audio\<close> raise nothing and leave the all-zero
  buffer, but the division of \<open>reverb_audio\<close> is not guarded: its peak is 0 and every
  value of its float array is the quotient \<open>0/0\<close>, NaN; the zeros are what the conversion
  to 16-bit integers stores for NaN.
\<close>

theorem silent_unguarded:
  assumes "channels (audio self) = 2 \<longrightarrow> even (length (samples (audio self)))"
      and "1 \<le> delay_samples self"
      and "samples (audio self) \<noteq> []"
      and "\<forall>s\<in>set (samples (audio self)). s = 0"
  shows "reverb_output self = Inr (map (\<lambda>s. None) (samples (audio self))) \<and>
         reverb_audio self = (None, self) \<and>
         normalize_audio self = (None, self) \<and>
         and_then (reverb_audio self) normalize_audio = (None, self)"
proof -
  have s: "reverb_sum self = map of_int (samples (audio self))"
    using assms(1,4) by (rule reverb_sum_silent)
  have "peak (reverb_sum self) = 0" using assms(4) by (simp add: s peak_zero_iff)
  moreover have "reverb_sum self \<noteq> []" using assms(3) by (simp add: s)
  ultimately have "reverb_output self = Inr (map (\<lambda>x. None) (reverb_sum self))"
    using reverb_output_rounds [OF assms(1,2)] by (simp add: normalize_peak_silent)
  then have o: "reverb_output self = Inr (map (\<lambda>s. None) (samples (audio self)))"
    by (simp add: s comp_def)
  have z: "map (\<lambda>x. 0) (samples (audio self)) = samples (audio self)"
    using assms(4) by (rule map_zero_id)
  have r: "reverb_audio self = (None, self)"
    unfolding reverb_audio_def o sum.case to_int16_None z by (simp add: assign_audio_def)
  have "max_amplitude (audio self) = 0"
    using assms(4) by (simp add: max_amplitude_def fold_max_zero)
  then have n: "normalize_audio self = (None, self)"
    by (simp add: normalize_audio_def nan_int16_def z)
  show ?thesis using o r n by (simp add: and_then_def)
qed

theorem silent_unguarded_witness:
  "reverb_output (default_maker \<lparr>samples = [0, 0, 0, 0], frame_rate = 44100, channels = 2\<rparr>) =
     Inr [None, None, None, None] \<and>
   reverb_audio (default_maker \<lparr>samples = [0, 0, 0, 0], frame_rate = 44100, channels = 2\<rparr>) =
     (None, default_maker \<lparr>samples = [0, 0, 0, 0], frame_rate = 44100, channels = 2\<rparr>) \<and>
   normalize_audio (default_maker \<lparr>samples = [0, 0, 0, 0], frame_rate = 44100, channels = 2\<rparr>) =
     (None, default_maker \<lparr>samples = [0, 0, 0, 0], frame_rate = 44100, channels = 2\<rparr>)"
  using silent_unguarded
    [of "default_maker \<lparr>samples = [0, 0, 0, 0], frame_rate = 44100, channels = 2\<rparr>"]
  by (simp add: default_maker_def delay_samples_def py_int_def)

text \<open>
  An all-zero mono buffer through \<open>reverb_audio\<close>: the division by the peak is not
  guarded, and every value of the float array is NaN before the conversion to integers.
\<close>

theorem silent_reverb_counterexample:
  "reverb_output (default_maker \<lparr>samples = [0, 0, 0], frame_rate = 44100, channels = 1\<rparr>) =
     Inr [None, None, None]"
  by (simp add: reverb_eval)

lemma take_reverb_sum_stereo:
  assumes c: "channels (audio self) = 2" and e: "even (length (samples (audio self)))"
  shows "take (2 * nat (delay_samples self)) (reverb_sum self) =
         take (2 * nat (delay_samples self)) (map of_int (samples (audio self)))"
proof -
  let ?smp = "map real_of_int (samples (audio self))"
  let ?d = "nat (delay_samples self)"
  have ev: "even (length ?smp)" using e by simp
  have "take (2 * ?d) (reverb_sum self) =
        interleave (take ?d (left_channel ?smp)) (take ?d (right_channel ?smp))"
    using c by (simp add: reverb_sum_def per_channel_def take_interleave take_echo_sum)
  also have "\<dots> = take (2 * ?d) (interleave (left_channel ?smp) (right_channel ?smp))"
    by (simp add: take_interleave)
  also have "\<dots> = take (2 * ?d) ?smp" using ev by (simp add: interleave_channels)
  finally show ?thesis .
qed

text \<open>
  C3 (amended). For a stereo buffer that is not silent, with decay 0.3, delay 120 ms,
  2 repeats and 44100 Hz (a delay of 5292 frames), \<open>reverb_audio\<close> raises nothing, keeps
  the number of samples, stores no sample above 32767 in absolute value, and its first
  5292 frames are free of echo but rescaled: each sample is the integer next to (within
  2 of) the original divided by the peak of the echo sum and multiplied by 32767.
\<close>

theorem reverb_scenario_b:
  assumes "channels (audio self) = 2"
      and "even (length (samples (audio self)))"
      and "frame_rate (audio self) = 44100"
      and "reverb_decay self = 3 / 10"
      and "reverb_delay_ms self = 120"
      and "reverb_repeats self = 2"
      and "\<exists>s\<in>set (samples (audio self)). s \<noteq> 0"
  shows "fst (reverb_audio self) = None \<and>
         length (samples (audio (snd (reverb_audio self)))) = length (samples (audio self)) \<and>
         (\<forall>y\<in>set (samples (audio (snd (reverb_audio self)))). \<bar>y\<bar> \<le> 32767) \<and>
         close (take (2 * 5292) (samples (audio (snd (reverb_audio self)))))
           (map (\<lambda>s. real_of_int s / peak (reverb_sum self) * 32767)
             (take (2 * 5292) (samples (audio self))))"
proof -
  have wf: "channels (audio self) = 2 \<longrightarrow> even (length (samples (audio self)))"
    using assms(2) by simp
  have d: "delay_samples self = 5292"
    using assms(3,5) by (simp add: delay_samples_def py_int_def)
  then have d1: "1 \<le> delay_samples self" by simp
  have p: "peak (reverb_sum self) \<noteq> 0" using wf d1 assms(7) by (rule reverb_sum_nonsilent)
  have r: "reverb_audio self =
           (None, self\<lparr>audio := (audio self)\<lparr>samples :=
              map astype_int16 (full_scale (reverb_sum self))\<rparr>\<rparr>)"
    using wf d1 p by (rule reverb_audio_eq)
  have t: "take (2 * 5292) (reverb_sum self) = take (2 * 5292) (map of_int (samples (audio self)))"
    using take_reverb_sum_stereo [OF assms(1,2)] unfolding d by simp
  have "take (2 * 5292) (full_scale (reverb_sum self)) =
        map (\<lambda>x. x / peak (reverb_sum self) * 32767) (take (2 * 5292) (reverb_sum self))"
    by (simp add: full_scale_def take_map)
  also have "\<dots> = map (\<lambda>s. real_of_int s / peak (reverb_sum self) * 32767)
             (take (2 * 5292) (samples (audio self)))"
    unfolding t by (simp add: take_map comp_def)
  finally have h: "take (2 * 5292) (full_scale (reverb_sum self)) =
      map (\<lambda>s. real_of_int s / peak (reverb_sum self) * 32767)
             (take (2 * 5292) (samples (audio self)))" .
  have "close (take (2 * 5292) (map astype_int16 (full_scale (reverb_sum self))))
          (take (2 * 5292) (full_scale (reverb_sum self)))"
    using close_full_scale [OF p] by (rule close_take)
  then have c: "close (take (2 * 5292) (map astype_int16 (full_scale (reverb_sum self))))
      (map (\<lambda>s. real_of_int s / peak (reverb_sum self) * 32767)
             (take (2 * 5292) (samples (audio self))))"
    unfolding h .
  have l: "length (map astype_int16 (full_scale (reverb_sum self))) = length (samples (audio self))"
    using length_reverb_sum [OF wf] by (simp add: full_scale_def)
  have b: "\<forall>y\<in>set (map astype_int16 (full_scale (reverb_sum self))). \<bar>y\<bar> \<le> 32767"
    using full_scale_int16 p by blast
  show ?thesis unfolding r using l b c by simp
qed

text \<open>One stereo frame (4, 2): the first frames of the output are not the input's.\<close>

theorem first_frames_counterexample:
  "take (2 * 5292)
     (samples (audio (snd (reverb_audio
        (default_maker \<lparr>samples = [4, 2], frame_rate = 44100, channels = 2\<rparr>))))) \<noteq>
   take (2 * 5292)
     (samples (audio (default_maker \<lparr>samples = [4, 2], frame_rate = 44100, channels = 2\<rparr>)))"
  by (simp add: reverb_eval)



lemma slow_audio_nonpositive:
  assumes "slow_speed self \<le> 0" "0 < frame_rate (audio self)" "samples (audio self) \<noteq> []"
  shows "slow_audio ratecv self = (Some AudioopError, self)"
proof -
  have "of_int (frame_rate (audio self)) * slow_speed self \<le> 0"
    using assms(1,2) by (simp add: mult_le_0_iff)
  then have "py_int (of_int (frame_rate (audio self)) * slow_speed self) \<le> 0"
    by (auto simp: py_int_def ceiling_le_iff)
  then show ?thesis
    using assms(2,3) by (simp add: slow_audio_def set_frame_rate_def assign_audio_def)
qed

text \<open>
  C2 (amended). No transform checks its parameters. With \<open>repeats <= 0\<close> the reverb does
  not fail: it adds no echo and stores the buffer rescaled to full scale (each sample
  within 2 of the original divided by the peak and multiplied by 32767, the peak of the
  result 32767). With \<open>delay_ms = 0\<close>, at least one repeat and a non-empty buffer it fails
  with NumPy's \<open>ValueError\<close> of the slice assignment, the object unchanged. With a speed
  factor that is not positive, a positive frame rate and a non-empty buffer,
  \<open>slow_audio\<close> fails inside the resampler (\<open>audioop.error\<close>), the object unchanged.
\<close>

theorem parameters_unchecked:
  "(channels (audio self) = 2 \<longrightarrow> even (length (samples (audio self)))) \<longrightarrow>
   ((reverb_repeats self \<le> 0 \<and> (\<exists>s\<in>set (samples (audio self)). s \<noteq> 0) \<longrightarrow>
       fst (reverb_audio self) = None \<and>
       close (samples (audio (snd (reverb_audio self))))
         (full_scale (map real_of_int (samples (audio self)))) \<and>
       max_amplitude (audio (snd (reverb_audio self))) = 32767) \<and>
    (reverb_delay_ms self = 0 \<and> 1 \<le> reverb_repeats self \<and> samples (audio self) \<noteq> [] \<longrightarrow>
       reverb_audio self = (Some (ValueError ''could not broadcast input array''), self)) \<and>
    (slow_speed self \<le> 0 \<and> 0 < frame_rate (audio self) \<and> samples (audio self) \<noteq> [] \<longrightarrow>
       slow_audio ratecv self = (Some AudioopError, self)))"
proof (intro impI conjI)
  assume wf: "channels (audio self) = 2 \<longrightarrow> even (length (samples (audio self)))"
  {
    assume a: "reverb_repeats self \<le> 0 \<and> (\<exists>s\<in>set (samples (audio self)). s \<noteq> 0)"
    let ?smp = "map real_of_int (samples (audio self))"
    from a have "\<exists>x\<in>set ?smp. x \<noteq> 0" by auto
    then have p: "peak ?smp \<noteq> 0" by (simp add: peak_zero_iff)
    have "reverb_output self = normalize_peak ?smp"
      using wf a by (intro reverb_output_no_rounds) simp_all
    then have o: "reverb_output self = Inr (map (\<lambda>x. Some (x / peak ?smp)) ?smp)"
      using normalize_peak_eq [OF p] by simp
    have r: "reverb_audio self =
         (None, self\<lparr>audio := (audio self)\<lparr>samples := map astype_int16 (full_scale ?smp)\<rparr>\<rparr>)"
      unfolding reverb_audio_def o sum.case to_int16_Some
      by (simp add: assign_audio_def full_scale_def comp_def)
    show "fst (reverb_audio self) = None" unfolding r by simp
    show "close (samples (audio (snd (reverb_audio self)))) (full_scale ?smp)"
      unfolding r using close_full_scale [OF p] by simp
    show "max_amplitude (audio (snd (reverb_audio self))) = 32767"
      unfolding r using max_amplitude_full_scale [OF p] by simp
  }
  {
    assume a: "reverb_delay_ms self = 0 \<and> 1 \<le> reverb_repeats self \<and> samples (audio self) \<noteq> []"
    then have "delay_samples self = 0" by (simp add: delay_samples_def py_int_def)
    then have "reverb_output self = Inl (ValueError ''could not broadcast input array'')"
      using wf a by (intro reverb_output_no_delay) simp_all
    then show "reverb_audio self = (Some (ValueError ''could not broadcast input array''), self)"
      by (simp add: reverb_audio_def assign_audio_def)
  }
  {
    assume "slow_speed self \<le> 0 \<and> 0 < frame_rate (audio self) \<and> samples (audio self) \<noteq> []"
    then show "slow_audio ratecv self = (Some AudioopError, self)"
      by (intro slow_audio_nonpositive) simp_all
  }
qed

theorem parameters_unchecked_witness:
  "fst (reverb_audio
     ((default_maker \<lparr>samples = [4, 2], frame_rate = 44100, channels = 1\<rparr>)
        \<lparr>reverb_repeats := - 1\<rparr>)) = None \<and>
   max_amplitude (audio (snd (reverb_audio
     ((default_maker \<lparr>samples = [4, 2], frame_rate = 44100, channels = 1\<rparr>)
        \<lparr>reverb_repeats := - 1\<rparr>)))) = 32767 \<and>
   reverb_audio
     ((default_maker \<lparr>samples = [4, 2], frame_rate = 44100, channels = 1\<rparr>)
        \<lparr>reverb_delay_ms := 0\<rparr>) =
   (Some (ValueError ''could not broadcast input array''),
    (default_maker \<lparr>samples = [4, 2], frame_rate = 44100, channels = 1\<rparr>)
        \<lparr>reverb_delay_ms := 0\<rparr>) \<and>
   slow_audio (\<lambda>xs c i r. xs)
     ((default_maker \<lparr>samples = [4, 2], frame_rate = 44100, channels = 1\<rparr>)
        \<lparr>slow_speed := 0\<rparr>) =
   (Some AudioopError,
    (default_maker \<lparr>samples = [4, 2], frame_rate = 44100, channels = 1\<rparr>)
        \<lparr>slow_speed := 0\<rparr>)"
  using
    parameters_unchecked [of "(default_maker \<lparr>samples = [4, 2], frame_rate = 44100, channels = 1\<rparr>)
        \<lparr>reverb_repeats := - 1\<rparr>" "\<lambda>xs c i r. xs"]
    parameters_unchecked [of "(default_maker \<lparr>samples = [4, 2], frame_rate = 44100, channels = 1\<rparr>)
        \<lparr>reverb_delay_ms := 0\<rparr>" "\<lambda>xs c i r. xs"]
    parameters_unchecked [of "(default_maker \<lparr>samples = [4, 2], frame_rate = 44100, channels = 1\<rparr>)
        \<lparr>slow_speed := 0\<rparr>" "\<lambda>xs c i r. xs"]
  by (simp add: default_maker_def)

text \<open>\<open>repeats = 0\<close>: no error, and the samples are replaced.\<close>

theorem zero_repeats_counterexample:
  "reverb_audio
     ((default_maker \<lparr>samples = [4, 2], frame_rate = 44100, channels = 1\<rparr>)
        \<lparr>reverb_repeats := 0\<rparr>) =
   (None, (default_maker \<lparr>samples = [32767, 16383], frame_rate = 44100, channels = 1\<rparr>)
        \<lparr>reverb_repeats := 0\<rparr>)"
  by (simp add: reverb_eval)

lemma add_silence_left: "length xs = n \<Longrightarrow> map2 (+) (replicate n (0::real)) xs = xs"
  by (induction xs arbitrary: n) auto

lemma add_silence_right: "length xs = n \<Longrightarrow> map2 (+) xs (replicate n (0::real)) = xs"
  by (induction xs arbitrary: n) auto

lemma echo_sum_impulse:
  "echo_sum (Suc k) g (a # replicate (Suc k) 0) 2 = a # replicate k 0 @ [a * g]"
proof -
  let ?xs = "a # replicate (Suc k) (0::real)"
  have c1: "delayed_copy (Suc k) g ?xs = 0 # replicate k 0 @ [a * g]"
    by (simp add: delayed_copy_def)
  have c2: "delayed_copy (Suc k * 2) (g ^ 2) ?xs = replicate (Suc (Suc k)) 0"
    by (simp add: delayed_copy_def min_def)
  have s1: "map2 (+) ?xs (0 # replicate k 0 @ [a * g]) = a # replicate k 0 @ [a * g]"
    using add_silence_left [of "replicate k 0 @ [a * g]" "Suc k"] by simp
  have s2: "map2 (+) (a # replicate k 0 @ [a * g]) (replicate (Suc (Suc k)) 0) =
            a # replicate k 0 @ [a * g]"
    by (rule add_silence_right) simp
  have "echo_sum (Suc k) g ?xs (Suc (Suc 0)) =
        map2 (+) (map2 (+) ?xs (delayed_copy (Suc k) g ?xs))
          (delayed_copy (Suc k * 2) (g ^ 2) ?xs)"
    by (simp add: numeral_2_eq_2)
  then show ?thesis unfolding c1 c2 s1 s2 by (simp add: numeral_2_eq_2)
qed

lemma left_channel_replicate: "left_channel (replicate (2 * k) x) = replicate k x"
  by (induction k) simp_all

lemma right_channel_replicate: "right_channel (replicate (2 * k) x) = replicate k x"
  by (induction k) simp_all

lemma impulse_reverb_sum:
  "reverb_sum (default_maker \<lparr>samples = [4, 2] @ replicate 10584 0, frame_rate = 44100,
                               channels = 2\<rparr>) =
   interleave (4 # replicate 5291 0 @ [12 / 10]) (2 # replicate 5291 0 @ [6 / 10])"
proof -
  let ?X = "default_maker \<lparr>samples = [4, 2] @ replicate 10584 0, frame_rate = 44100,
                               channels = 2\<rparr>"
  have n: "(10584::nat) = 2 * 5292" "(5292::nat) = Suc 5291" by simp_all
  have m: "map real_of_int (samples (audio ?X)) = 4 # 2 # replicate (2 * 5292) 0"
    by (simp add: default_maker_def)
  have l: "left_channel (4 # 2 # replicate (2 * 5292) (0::real)) = 4 # replicate (Suc 5291) 0"
    unfolding left_channel.simps left_channel_replicate by simp
  have r: "right_channel (4 # 2 # replicate (2 * 5292) (0::real)) = 2 # replicate (Suc 5291) 0"
    unfolding right_channel.simps right_channel_replicate by simp
  have d: "nat (delay_samples ?X) = Suc 5291"
    by (simp add: delay_samples_def py_int_def default_maker_def)
  have v: "channels (audio ?X) = 2" "reverb_decay ?X = 3 / 10" "nat (reverb_repeats ?X) = 2"
    by (simp_all add: default_maker_def)
  show ?thesis
    unfolding reverb_sum_def per_channel_def m l r d v echo_sum_impulse by simp
qed

lemma impulse_peak:
  "peak (reverb_sum (default_maker \<lparr>samples = [4, 2] @ replicate 10584 0, frame_rate = 44100,
                               channels = 2\<rparr>)) = 4"
proof -
  let ?L = "4 # replicate 5291 0 @ [12 / 10 :: real]"
  let ?R = "2 # replicate 5291 0 @ [6 / 10 :: real]"
  have s: "set (interleave ?L ?R) = set ?L \<union> set ?R" by (rule set_interleave) simp
  have b: "\<forall>x\<in>set (interleave ?L ?R). \<bar>x\<bar> \<le> 4" unfolding s by auto
  have a: "\<exists>x\<in>set (interleave ?L ?R). \<bar>x\<bar> = 4" unfolding s by auto
  show ?thesis unfolding impulse_reverb_sum peak_def using b a by (rule fold_max_abs_eqI)
qed

theorem reverb_scenario_b_witness:
  "fst (reverb_audio
     (default_maker \<lparr>samples = [4, 2] @ replicate 10584 0, frame_rate = 44100,
                      channels = 2\<rparr>)) = None \<and>
   length (samples (audio (snd (reverb_audio
     (default_maker \<lparr>samples = [4, 2] @ replicate 10584 0, frame_rate = 44100,
                      channels = 2\<rparr>))))) = 10586 \<and>
   close (take (2 * 5292) (samples (audio (snd (reverb_audio
     (default_maker \<lparr>samples = [4, 2] @ replicate 10584 0, frame_rate = 44100,
                      channels = 2\<rparr>))))))
     ([32767, 32767 / 2] @ replicate 10582 0)"
proof -
  let ?X = "default_maker \<lparr>samples = [4, 2] @ replicate 10584 0, frame_rate = 44100,
                               channels = 2\<rparr>"
  have x: "samples (audio ?X) = [4, 2] @ replicate 10584 0" by (simp add: default_maker_def)
  have h: "map (\<lambda>s. real_of_int s / peak (reverb_sum ?X) * 32767)
             (take (2 * 5292) (samples (audio ?X))) =
           [32767, 32767 / 2] @ replicate 10582 0"
    unfolding impulse_peak x by simp
  have t: "fst (reverb_audio ?X) = None \<and>
         length (samples (audio (snd (reverb_audio ?X)))) = length (samples (audio ?X)) \<and>
         (\<forall>y\<in>set (samples (audio (snd (reverb_audio ?X)))). \<bar>y\<bar> \<le> 32767) \<and>
         close (take (2 * 5292) (samples (audio (snd (reverb_audio ?X)))))
           (map (\<lambda>s. real_of_int s / peak (reverb_sum ?X) * 32767)
             (take (2 * 5292) (samples (audio ?X))))"
  proof (rule reverb_scenario_b)
    show "channels (audio ?X) = 2" by (simp add: default_maker_def)
    show "even (length (samples (audio ?X)))" by (simp add: default_maker_def)
    show "frame_rate (audio ?X) = 44100" by (simp add: default_maker_def)
    show "reverb_decay ?X = 3 / 10" by (simp add: default_maker_def)
    show "reverb_delay_ms ?X = 120" by (simp add: default_maker_def)
    show "reverb_repeats ?X = 2" by (simp add: default_maker_def)
    show "\<exists>s\<in>set (samples (audio ?X)). s \<noteq> 0" by (simp add: default_maker_def)
  qed
  from t have t1: "fst (reverb_audio ?X) = None" by (rule conjunct1)
  from t have "length (samples (audio (snd (reverb_audio ?X)))) = length (samples (audio ?X))"
    by (rule conjunct1 [OF conjunct2])
  then have t2: "length (samples (audio (snd (reverb_audio ?X)))) = 10586"
    unfolding x by simp
  from t have t3: "close (take (2 * 5292) (samples (audio (snd (reverb_audio ?X)))))
      ([32767, 32767 / 2] @ replicate 10582 0)"
    unfolding h by (rule conjunct2 [OF conjunct2 [OF conjunct2]])
  show ?thesis using t1 t2 t3 by (intro conjI)
qed

subsection \<open>The panning transforms\<close>

lemma surround_loop_panned:
  assumes "sample_rate \<noteq> 0" "cycle \<noteq> 0"
  shows "surround_loop sample_rate cycle depth n fs = Inr (panned sample_rate cycle depth n fs)"
proof (induction fs arbitrary: n)
  case Nil
  then show ?case by (simp add: panned_def)
next
  case (Cons f fs)
  obtain l r where f: "f = (l, r)" by (cases f)
  show ?case
    using assms Cons.IH [of "Suc n"]
    by (simp add: f panned_def py_fmod_def left_gain_def right_gain_def pan_def elapsed_def
        fmod_def Let_def)
qed

lemma nd_loop_panned:
  assumes "sample_rate \<noteq> 0" "cycle \<noteq> 0"
  shows "nd_loop sample_rate cycle n fs = Inr (panned_int sample_rate cycle n fs)"
proof (induction fs arbitrary: n)
  case Nil
  then show ?case by (simp add: panned_int_def)
next
  case (Cons f fs)
  obtain l r where f: "f = (l, r)" by (cases f)
  show ?case
    using assms Cons.IH [of "Suc n"]
    by (simp add: f panned_int_def py_fmod_def left_gain_def right_gain_def pan_def elapsed_def
        fmod_def Let_def)
qed

lemma reshape2_frames: "even (length xs) \<Longrightarrow> reshape2 xs = Inr (frames xs)"
  by (induction xs rule: reshape2.induct) (auto simp: frames_def)

lemma surround_output_eq:
  assumes "even (length (samples (audio self)))"
      and "frame_rate (audio self) \<noteq> 0"
      and "surround_cycle_duration self \<noteq> 0"
  shows "surround_output self =
           normalize_peak (flatten (panned (frame_rate (audio self)) (surround_cycle_duration self)
              (surround_depth self) 0 (frames (map real_of_int (samples (audio self))))))"
proof -
  have r: "reshape2 (map real_of_int (samples (audio self))) =
           Inr (frames (map real_of_int (samples (audio self))))"
    using assms(1) by (intro reshape2_frames) simp
  show ?thesis
    unfolding surround_output_def r sum.case surround_loop_panned [OF assms(2,3)] ..
qed

lemma surround_audio_eq:
  assumes "channels (audio self) = 2"
      and "even (length (samples (audio self)))"
      and "frame_rate (audio self) \<noteq> 0"
      and "surround_cycle_duration self \<noteq> 0"
      and "peak (flatten (panned (frame_rate (audio self)) (surround_cycle_duration self)
              (surround_depth self) 0 (frames (map real_of_int (samples (audio self)))))) \<noteq> 0"
  shows "surround_audio self =
           (None, self\<lparr>audio := (audio self)\<lparr>samples := map astype_int16
              (full_scale (flatten (panned (frame_rate (audio self)) (surround_cycle_duration self)
                 (surround_depth self) 0 (frames (map real_of_int (samples (audio self)))))))\<rparr>\<rparr>)"
  unfolding surround_audio_def surround_output_eq [OF assms(2,3,4)] normalize_peak_eq [OF assms(5)]
    sum.case to_int16_Some
  using assms(1) by (simp add: assign_audio_def full_scale_def comp_def)

lemma pan_bound: "\<bar>pan sr c depth i\<bar> \<le> \<bar>depth\<bar>"
proof -
  have "\<bar>sin (2 * pi * elapsed sr c i / c)\<bar> * \<bar>depth\<bar> \<le> 1 * \<bar>depth\<bar>"
    by (intro mult_right_mono) simp_all
  then show ?thesis by (simp add: pan_def abs_mult)
qed





lemma flatten_frames: "even (length xs) \<Longrightarrow> flatten (frames xs) = xs"
  by (induction xs rule: left_channel.induct) (auto simp: frames_def)

lemma length_frames: "even (length xs) \<Longrightarrow> length (frames xs) = length xs div 2"
  by (induction xs rule: left_channel.induct) (auto simp: frames_def)

lemma frames_map: "frames (map f xs) = map (\<lambda>(l, r). (f l, f r)) (frames xs)"
  by (induction xs rule: left_channel.induct) (auto simp: frames_def)

lemma panned_int_of_panned:
  "map (\<lambda>(l, r). (py_int l, py_int r))
     (panned sr c 1 n (map (\<lambda>(l, r). (real_of_int l, real_of_int r)) fs)) =
   panned_int sr c n fs"
  by (induction fs arbitrary: n) (auto simp: panned_def panned_int_def)

lemma gain_unit:
  "0 \<le> left_gain sr c 1 i" "left_gain sr c 1 i \<le> 1"
  "0 \<le> right_gain sr c 1 i" "right_gain sr c 1 i \<le> 1"
  using pan_bound [of sr c 1 i] by (simp_all add: left_gain_def right_gain_def abs_le_iff)

lemma py_int_scaled:
  assumes "0 \<le> g" "g \<le> 1"
  shows "\<bar>py_int (real_of_int l * g)\<bar> \<le> \<bar>l\<bar>"
proof (rule py_int_bounds)
  have "\<bar>real_of_int l * g\<bar> = \<bar>real_of_int l\<bar> * g" using assms(1) by (simp add: abs_mult)
  also have "\<dots> \<le> \<bar>real_of_int l\<bar> * 1" using assms(2) by (intro mult_left_mono) simp_all
  finally show "\<bar>real_of_int l * g\<bar> \<le> real_of_int \<bar>l\<bar>" by simp
qed

lemma panned_int_close:
  "close (flatten (panned_int sr c n fs))
     (flatten (map (\<lambda>(i, l, r). (real_of_int l * left_gain sr c 1 i,
                                 real_of_int r * right_gain sr c 1 i))
                (enumerate n fs)))"
proof (induction fs arbitrary: n)
  case Nil
  then show ?case by (simp add: close_def panned_int_def)
next
  case (Cons f fs)
  obtain l r where f: "f = (l, r)" by (cases f)
  have a: "\<bar>real_of_int (py_int (real_of_int l * left_gain sr c 1 n))
            - real_of_int l * left_gain sr c 1 n\<bar> \<le> 2"
    using py_int_close [of "real_of_int l * left_gain sr c 1 n"] by simp
  have b: "\<bar>real_of_int (py_int (real_of_int r * right_gain sr c 1 n))
            - real_of_int r * right_gain sr c 1 n\<bar> \<le> 2"
    using py_int_close [of "real_of_int r * right_gain sr c 1 n"] by simp
  show ?case
    using Cons.IH [of "Suc n"] a b by (simp add: close_def panned_int_def f)
qed

lemma panned_int_magnitude:
  "list_all2 (\<lambda>y s. \<bar>y\<bar> \<le> \<bar>s\<bar>) (flatten (panned_int sr c n fs)) (flatten fs)"
proof (induction fs arbitrary: n)
  case Nil
  then show ?case by (simp add: panned_int_def)
next
  case (Cons f fs)
  obtain l r where f: "f = (l, r)" by (cases f)
  have a: "\<bar>py_int (real_of_int l * left_gain sr c 1 n)\<bar> \<le> \<bar>l\<bar>"
    using gain_unit(1,2) by (rule py_int_scaled)
  have b: "\<bar>py_int (real_of_int r * right_gain sr c 1 n)\<bar> \<le> \<bar>r\<bar>"
    using gain_unit(3,4) by (rule py_int_scaled)
  have p: "panned_int sr c n (f # fs) =
        (py_int (real_of_int l * left_gain sr c 1 n), py_int (real_of_int r * right_gain sr c 1 n))
          # panned_int sr c (Suc n) fs"
    by (simp add: panned_int_def f)
  show ?case unfolding p using Cons.IH [of "Suc n"] a b by (simp add: f)
qed

text \<open>
  C8. On a stereo segment \<open>apply_nd_audio_effect\<close> runs the panning of \<open>surround_audio\<close>
  with the cycle duration \<open>dimension_cycle * (dimension_number / 8)\<close> and the depth 1:
  frame \<open>i\<close> becomes its left sample times \<open>(1 + pan) / 2\<close> and its right sample times
  \<open>(1 - pan) / 2\<close>, with the \<open>pan\<close> of C7 at depth 1, stored as integers (each within 2
  of the product). The result is stored as it is, with no division by the peak: no
  sample grows. Nothing is raised (sample rate and cycle duration not zero).
\<close>

theorem dimension_panning:
  assumes "channels (audio self) = 2"
      and "even (length (samples (audio self)))"
      and "frame_rate (audio self) \<noteq> 0"
      and "dimension_cycle self * (real_of_int (dimension_number self) / 8) \<noteq> 0"
  shows "fst (apply_nd_audio_effect self) = None \<and>
         close (samples (audio (snd (apply_nd_audio_effect self))))
           (flatten
              (map (\<lambda>(i, l, r).
                 (real_of_int l *
                    ((1 + pan (frame_rate (audio self))
                       (dimension_cycle self * (real_of_int (dimension_number self) / 8)) 1 i) / 2),
                  real_of_int r *
                    ((1 - pan (frame_rate (audio self))
                       (dimension_cycle self * (real_of_int (dimension_number self) / 8)) 1 i) / 2)))
                (enumerate 0 (frames (samples (audio self)))))) \<and>
         list_all2 (\<lambda>y s. \<bar>y\<bar> \<le> \<bar>s\<bar>)
           (samples (audio (snd (apply_nd_audio_effect self)))) (samples (audio self))"
proof -
  let ?sr = "frame_rate (audio self)"
  let ?c = "dimension_cycle self * (real_of_int (dimension_number self) / 8)"
  let ?fs = "frames (samples (audio self))"
  have c: "cycle_duration self = ?c" by (simp add: cycle_duration_def)
  have r: "reshape2 (samples (audio self)) = Inr ?fs" using assms(2) by (rule reshape2_frames)
  have n: "nd_loop ?sr ?c 0 ?fs = Inr (panned_int ?sr ?c 0 ?fs)"
    using assms(3,4) by (rule nd_loop_panned)
  have a: "apply_nd_audio_effect self =
       (None, self\<lparr>audio := (audio self)\<lparr>samples := flatten (panned_int ?sr ?c 0 ?fs)\<rparr>\<rparr>)"
    unfolding apply_nd_audio_effect_def c r sum.case n
    using assms(1) by (simp add: assign_audio_def)
  have f: "flatten ?fs = samples (audio self)" using assms(2) by (rule flatten_frames)
  have m: "list_all2 (\<lambda>y s. \<bar>y\<bar> \<le> \<bar>s\<bar>) (flatten (panned_int ?sr ?c 0 ?fs)) (samples (audio self))"
    using panned_int_magnitude [of ?sr ?c 0 ?fs] unfolding f .
  have e: "map (\<lambda>(i, l, r). (real_of_int l * ((1 + pan ?sr ?c 1 i) / 2),
                             real_of_int r * ((1 - pan ?sr ?c 1 i) / 2))) (enumerate 0 ?fs) =
           map (\<lambda>(i, l, r). (real_of_int l * left_gain ?sr ?c 1 i,
                             real_of_int r * right_gain ?sr ?c 1 i)) (enumerate 0 ?fs)"
    by (simp add: left_gain_def right_gain_def)
  show ?thesis
    unfolding a e using panned_int_close [of ?sr ?c 0 ?fs] m by simp
qed

lemma sixth_of_long_cycle: "sin (2 * pi * (1 / 3) / 4) = 1 / 2"
proof -
  have "2 * pi * (1 / 3) / 4 = pi / 6" by simp
  then show ?thesis by (simp only: sin_30)
qed

lemma pan_3_4: "pan 3 4 1 0 = 0" "pan 3 4 1 (Suc 0) = 1 / 2"
proof -
  show "pan 3 4 1 0 = 0" by (simp add: pan_def elapsed_def fmod_def)
  have e: "elapsed 3 4 (Suc 0) = 1 / 3" by (simp add: elapsed_def fmod_def)
  show "pan 3 4 1 (Suc 0) = 1 / 2" unfolding pan_def e sixth_of_long_cycle by simp
qed

theorem dimension_panning_witness:
  "fst (apply_nd_audio_effect
     ((default_maker \<lparr>samples = [8, 8, 8, 8], frame_rate = 3, channels = 2\<rparr>)
        \<lparr>dimension := True\<rparr>)) = None \<and>
   close (samples (audio (snd (apply_nd_audio_effect
     ((default_maker \<lparr>samples = [8, 8, 8, 8], frame_rate = 3, channels = 2\<rparr>)
        \<lparr>dimension := True\<rparr>)))))
     [4, 4, 6, 2]"
proof -
  let ?X = "(default_maker \<lparr>samples = [8, 8, 8, 8], frame_rate = 3, channels = 2\<rparr>)
        \<lparr>dimension := True\<rparr>"
  let ?c = "dimension_cycle ?X * (real_of_int (dimension_number ?X) / 8)"
  let ?L = "flatten
              (map (\<lambda>(i, l, r).
                 (real_of_int l * ((1 + pan (frame_rate (audio ?X)) ?c 1 i) / 2),
                  real_of_int r * ((1 - pan (frame_rate (audio ?X)) ?c 1 i) / 2)))
                (enumerate 0 (frames (samples (audio ?X)))))"
  have s: "?L = [4, 4, 6, 2]"
    by (simp add: default_maker_def frames_def pan_3_4)
  have t: "fst (apply_nd_audio_effect ?X) = None \<and>
           close (samples (audio (snd (apply_nd_audio_effect ?X)))) ?L \<and>
           list_all2 (\<lambda>y s. \<bar>y\<bar> \<le> \<bar>s\<bar>)
             (samples (audio (snd (apply_nd_audio_effect ?X)))) (samples (audio ?X))"
  proof (rule dimension_panning)
    show "channels (audio ?X) = 2" by (simp add: default_maker_def)
    show "even (length (samples (audio ?X)))" by (simp add: default_maker_def)
    show "frame_rate (audio ?X) \<noteq> 0" by (simp add: default_maker_def)
    show "?c \<noteq> 0" by (simp add: default_maker_def)
  qed
  from t have t1: "fst (apply_nd_audio_effect ?X) = None" by (rule conjunct1)
  from t have t2: "close (samples (audio (snd (apply_nd_audio_effect ?X)))) ?L"
    by (rule conjunct1 [OF conjunct2])
  show ?thesis using t1 t2 unfolding s by (intro conjI) blast+
qed

subsection \<open>Rescaling to full scale\<close>

lemma gains_positive:
  assumes "\<bar>depth\<bar> < 1"
  shows "0 < left_gain sr c depth i" "0 < right_gain sr c depth i"
  using pan_bound [of sr c depth i] assms
  by (simp_all add: left_gain_def right_gain_def abs_le_iff)

lemma panned_nonsilent:
  assumes "\<bar>depth\<bar> < 1" and "\<exists>x\<in>set (flatten fs). x \<noteq> 0"
  shows "\<exists>y\<in>set (flatten (panned sr c depth n fs)). y \<noteq> 0"
  using assms(2)
proof (induction fs arbitrary: n)
  case Nil
  then show ?case by simp
next
  case (Cons f fs)
  obtain l r where f: "f = (l, r)" by (cases f)
  have p: "panned sr c depth n (f # fs) =
        (l * left_gain sr c depth n, r * right_gain sr c depth n) # panned sr c depth (Suc n) fs"
    by (simp add: panned_def f)
  have g: "left_gain sr c depth n \<noteq> 0" "right_gain sr c depth n \<noteq> 0"
    using gains_positive [OF assms(1), of sr c n] by simp_all
  from Cons.prems have "l \<noteq> 0 \<or> r \<noteq> 0 \<or> (\<exists>x\<in>set (flatten fs). x \<noteq> 0)"
    by (auto simp: f)
  then show ?case
  proof (elim disjE)
    assume "l \<noteq> 0"
    then show ?thesis unfolding p using g by simp
  next
    assume "r \<noteq> 0"
    then show ?thesis unfolding p using g by simp
  next
    assume "\<exists>x\<in>set (flatten fs). x \<noteq> 0"
    from Cons.IH [OF this, of "Suc n"] show ?thesis unfolding p by auto
  qed
qed

text \<open>
  C10 (amended). For every well-formed buffer that is not silent, \<open>reverb_audio\<close> with a
  delay of at least one frame, and \<open>surround_audio\<close> with a depth of absolute value
  below 1 (sample rate and cycle duration not zero), divide by the observed peak and
  rescale: the peak absolute amplitude of the output is exactly 32767, before the
  truncation to integers and after it, however small the input was.
\<close>

theorem rescaled_to_full_scale:
  "((channels (audio self) = 2 \<longrightarrow> even (length (samples (audio self)))) \<and>
    1 \<le> delay_samples self \<and> (\<exists>s\<in>set (samples (audio self)). s \<noteq> 0) \<longrightarrow>
      (\<exists>ys. reverb_output self = Inr (map Some ys) \<and> peak (map (\<lambda>y. y * 32767) ys) = 32767) \<and>
      fst (reverb_audio self) = None \<and>
      max_amplitude (audio (snd (reverb_audio self))) = 32767) \<and>
   (channels (audio self) = 2 \<and> even (length (samples (audio self))) \<and>
    frame_rate (audio self) \<noteq> 0 \<and> surround_cycle_duration self \<noteq> 0 \<and>
    \<bar>surround_depth self\<bar> < 1 \<and> (\<exists>s\<in>set (samples (audio self)). s \<noteq> 0) \<longrightarrow>
      (\<exists>ys. surround_output self = Inr (map Some ys) \<and> peak (map (\<lambda>y. y * 32767) ys) = 32767) \<and>
      fst (surround_audio self) = None \<and>
      max_amplitude (audio (snd (surround_audio self))) = 32767)"
proof (intro conjI impI)
  assume a: "(channels (audio self) = 2 \<longrightarrow> even (length (samples (audio self)))) \<and>
    1 \<le> delay_samples self \<and> (\<exists>s\<in>set (samples (audio self)). s \<noteq> 0)"
  then have wf: "channels (audio self) = 2 \<longrightarrow> even (length (samples (audio self)))"
    and d: "1 \<le> delay_samples self" and x: "\<exists>s\<in>set (samples (audio self)). s \<noteq> 0"
    by simp_all
  have p: "peak (reverb_sum self) \<noteq> 0" using wf d x by (rule reverb_sum_nonsilent)
  have "reverb_output self = Inr (map (\<lambda>x. Some (x / peak (reverb_sum self))) (reverb_sum self))"
    using wf d p by (rule reverb_output_eq)
  then have o: "reverb_output self =
      Inr (map Some (map (\<lambda>x. x / peak (reverb_sum self)) (reverb_sum self)))"
    by (simp add: comp_def)
  have "peak (map (\<lambda>y. y * 32767) (map (\<lambda>x. x / peak (reverb_sum self)) (reverb_sum self))) = 32767"
    using peak_full_scale [OF p] by (simp add: full_scale_def comp_def)
  with o show "\<exists>ys. reverb_output self = Inr (map Some ys) \<and> peak (map (\<lambda>y. y * 32767) ys) = 32767"
    by blast
  show "fst (reverb_audio self) = None"
    unfolding reverb_audio_eq [OF wf d p] by simp
  show "max_amplitude (audio (snd (reverb_audio self))) = 32767"
    unfolding reverb_audio_eq [OF wf d p] using max_amplitude_full_scale [OF p] by simp
next
  let ?P = "flatten (panned (frame_rate (audio self)) (surround_cycle_duration self)
              (surround_depth self) 0 (frames (map real_of_int (samples (audio self)))))"
  assume a: "channels (audio self) = 2 \<and> even (length (samples (audio self))) \<and>
    frame_rate (audio self) \<noteq> 0 \<and> surround_cycle_duration self \<noteq> 0 \<and>
    \<bar>surround_depth self\<bar> < 1 \<and> (\<exists>s\<in>set (samples (audio self)). s \<noteq> 0)"
  then have c: "channels (audio self) = 2" and e: "even (length (samples (audio self)))"
    and sr: "frame_rate (audio self) \<noteq> 0" and cy: "surround_cycle_duration self \<noteq> 0"
    and dp: "\<bar>surround_depth self\<bar> < 1" and x: "\<exists>s\<in>set (samples (audio self)). s \<noteq> 0"
    by simp_all
  have "flatten (frames (map real_of_int (samples (audio self)))) = map real_of_int (samples (audio self))"
    using e by (intro flatten_frames) simp
  then have "\<exists>x\<in>set (flatten (frames (map real_of_int (samples (audio self))))). x \<noteq> 0"
    using x by auto
  then have "\<exists>y\<in>set ?P. y \<noteq> 0" using dp by (intro panned_nonsilent)
  then have p: "peak ?P \<noteq> 0" by (simp add: peak_zero_iff)
  have "surround_output self = Inr (map (\<lambda>x. Some (x / peak ?P)) ?P)"
    unfolding surround_output_eq [OF e sr cy] using p by (rule normalize_peak_eq)
  then have o: "surround_output self = Inr (map Some (map (\<lambda>x. x / peak ?P) ?P))"
    by (simp add: comp_def)
  have "peak (map (\<lambda>y. y * 32767) (map (\<lambda>x. x / peak ?P) ?P)) = 32767"
    using peak_full_scale [OF p] by (simp add: full_scale_def comp_def)
  with o show "\<exists>ys. surround_output self = Inr (map Some ys) \<and> peak (map (\<lambda>y. y * 32767) ys) = 32767"
    by blast
  show "fst (surround_audio self) = None"
    unfolding surround_audio_eq [OF c e sr cy p] by simp
  show "max_amplitude (audio (snd (surround_audio self))) = 32767"
    unfolding surround_audio_eq [OF c e sr cy p] using max_amplitude_full_scale [OF p] by simp
qed

theorem rescaled_to_full_scale_witness:
  "max_amplitude (audio (snd (reverb_audio
      ((default_maker \<lparr>samples = [4, 2, 0, 8], frame_rate = 1000, channels = 2\<rparr>)
         \<lparr>reverb_delay_ms := 1\<rparr>)))) = 32767 \<and>
   max_amplitude (audio (snd (surround_audio
      ((default_maker \<lparr>samples = [4, 2, 0, 8], frame_rate = 1000, channels = 2\<rparr>)
         \<lparr>surround := True\<rparr>)))) = 32767"
  using
    rescaled_to_full_scale
      [of "(default_maker \<lparr>samples = [4, 2, 0, 8], frame_rate = 1000, channels = 2\<rparr>)
         \<lparr>reverb_delay_ms := 1\<rparr>"]
    rescaled_to_full_scale
      [of "(default_maker \<lparr>samples = [4, 2, 0, 8], frame_rate = 1000, channels = 2\<rparr>)
         \<lparr>surround := True\<rparr>"]
  by (simp add: default_maker_def delay_samples_def py_int_def)

lemma set_flatten: "set (flatten fs) = fst ` set fs \<union> snd ` set fs"
  by (induction fs rule: flatten.induct) auto

lemma length_flatten: "length (flatten fs) = 2 * length fs"
  by (induction fs rule: flatten.induct) auto

lemma flatten_Nil_iff: "flatten fs = [] \<longleftrightarrow> fs = []"
  by (cases fs rule: flatten.cases) auto

lemma panned_silent:
  assumes "\<forall>(i, l, r)\<in>set (enumerate n fs).
             l * left_gain sr c d i = 0 \<and> r * right_gain sr c d i = 0"
  shows "\<forall>y\<in>set (flatten (panned sr c d n fs)). y = 0"
  using assms by (fastforce simp: set_flatten panned_def)

lemma frames_replicate_append:
  "frames (replicate (2 * k) x @ ys) = replicate k (x, x) @ frames ys"
  by (induction k) (simp_all add: frames_def)

lemma quarter_cycle_right_gain: "right_gain 100 2 1 50 = 0"
  by (simp add: right_gain_def pan_def elapsed_def fmod_def)

text \<open>
  Scenario C of the specification (100 Hz, cycle 2 s, depth 1): at frame 50, a quarter of
  the cycle, the right gain is 0. A buffer whose only sound is the right sample of that
  frame is silent after the panning: the peak is 0, every quotient is \<open>0/0\<close>, and the
  transform stores 102 zeros, a peak of 0.
\<close>

theorem surround_silenced_counterexample:
  "fst (surround_audio
     ((default_maker \<lparr>samples = replicate 100 0 @ [0, 7], frame_rate = 100, channels = 2\<rparr>)
        \<lparr>surround := True, surround_cycle_duration := 2, surround_depth := 1\<rparr>)) = None \<and>
   samples (audio (snd (surround_audio
     ((default_maker \<lparr>samples = replicate 100 0 @ [0, 7], frame_rate = 100, channels = 2\<rparr>)
        \<lparr>surround := True, surround_cycle_duration := 2, surround_depth := 1\<rparr>)))) =
     replicate 102 0"
proof -
  let ?X = "(default_maker \<lparr>samples = replicate 100 0 @ [0, 7], frame_rate = 100, channels = 2\<rparr>)
        \<lparr>surround := True, surround_cycle_duration := 2, surround_depth := 1\<rparr>"
  let ?fs = "replicate 50 (0::real, 0::real) @ [(0, 7)]"
  let ?P = "flatten (panned 100 2 1 0 ?fs)"
  have f: "frames (map real_of_int (samples (audio ?X))) = ?fs"
    using frames_replicate_append [of 50 "0::real" "[0, 7]"]
    by (simp add: default_maker_def frames_def)
  have "\<forall>(i, l, r)\<in>set (enumerate 0 ?fs).
           l * left_gain 100 2 1 i = 0 \<and> r * right_gain 100 2 1 i = 0"
    by (auto simp: enumerate_append_eq in_set_enumerate_eq quarter_cycle_right_gain)
  then have z: "\<forall>y\<in>set ?P. y = 0" by (rule panned_silent)
  have ne: "?P \<noteq> []"
    by (simp add: flatten_Nil_iff panned_def enumerate_append_eq)
  have l: "length ?P = 102" by (simp add: length_flatten panned_def)
  have "surround_output ?X = normalize_peak ?P"
    using surround_output_eq [of ?X] f by (simp add: default_maker_def)
  also have "\<dots> = Inr (map (\<lambda>x. None) ?P)"
    using ne z by (intro normalize_peak_silent) (simp_all add: peak_zero_iff)
  finally have o: "surround_output ?X = Inr (map (\<lambda>x. None) ?P)" .
  have m: "map (\<lambda>x. 0::int) ?P = replicate 102 0"
    using map_replicate_const [of "0::int" ?P] unfolding l .
  have c: "channels (audio ?X) = 2" by (simp add: default_maker_def)
  have "surround_audio ?X = (None, ?X\<lparr>audio := (audio ?X)\<lparr>samples := replicate 102 0\<rparr>\<rparr>)"
    unfolding surround_audio_def o sum.case to_int16_None m using c
    by (simp add: assign_audio_def)
  then show ?thesis by simp
qed

subsection \<open>normalize\_audio\<close>

lemma powr_root_power: "0 < n \<Longrightarrow> y = x * real n \<Longrightarrow> ((10::real) powr x) ^ n = 10 powr y"
  by (simp add: powr_power mult.commute)

lemma power_le_base:
  fixes a b :: real
  assumes "0 < n" "0 \<le> b" "a ^ n \<le> b ^ n"
  shows "a \<le> b"
proof (rule ccontr)
  assume "\<not> a \<le> b"
  then have "b < a" by simp
  then have "b ^ n < a ^ n" using assms(2,1) by (rule power_strict_mono)
  with assms(3) show False by simp
qed

lemma power_less_base:
  fixes a b :: real
  assumes "0 \<le> b" "a ^ n < b ^ n"
  shows "a < b"
proof (rule ccontr)
  assume "\<not> a < b"
  then have "b \<le> a" by simp
  then have "b ^ n \<le> a ^ n" using assms(1) by (rule power_mono)
  with assms(2) show False by simp
qed

lemma powr_le_baseI:
  assumes "0 < n" "y = x * real n" "a ^ n \<le> 10 powr y"
  shows "a \<le> 10 powr x"
proof -
  have e: "(10 powr x) ^ n = 10 powr y" using assms(1,2) by (rule powr_root_power)
  have p: "0 \<le> (10::real) powr x" by (rule powr_ge_zero)
  have "a ^ n \<le> (10 powr x) ^ n" unfolding e by (rule assms(3))
  with assms(1) p show ?thesis by (rule power_le_base)
qed

lemma powr_ge_baseI:
  assumes "0 < n" "y = x * real n" "0 \<le> a" "10 powr y \<le> a ^ n"
  shows "10 powr x \<le> a"
proof -
  have e: "(10 powr x) ^ n = 10 powr y" using assms(1,2) by (rule powr_root_power)
  have "(10 powr x) ^ n \<le> a ^ n" unfolding e by (rule assms(4))
  with assms(1,3) show ?thesis by (rule power_le_base)
qed

lemma powr_less_baseI:
  assumes "0 < n" "y = x * real n" "a ^ n < 10 powr y"
  shows "a < 10 powr x"
proof -
  have e: "(10 powr x) ^ n = 10 powr y" using assms(1,2) by (rule powr_root_power)
  have p: "0 \<le> (10::real) powr x" by (rule powr_ge_zero)
  have "a ^ n < (10 powr x) ^ n" unfolding e by (rule assms(3))
  with p show ?thesis by (rule power_less_base)
qed

lemma powr_greater_baseI:
  assumes "0 < n" "y = x * real n" "0 \<le> a" "10 powr y < a ^ n"
  shows "10 powr x < a"
proof -
  have e: "(10 powr x) ^ n = 10 powr y" using assms(1,2) by (rule powr_root_power)
  have "(10 powr x) ^ n < a ^ n" unfolding e by (rule assms(4))
  with assms(3) show ?thesis by (rule power_less_base)
qed

lemma ten_powr_minus: "(10::real) powr (- real k) = 1 / 10 ^ k"
proof -
  have "(10::real) powr (- real k) = 1 / 10 powr (real k)" by (rule powr_minus_divide)
  also have "(10::real) powr (real k) = 10 ^ k" by (rule powr_realpow) simp
  finally show ?thesis .
qed

lemma ten_powr_m1: "(10::real) powr (- 1) = 1 / 10"
  using ten_powr_minus [of 1] by simp

lemma ten_powr_m9: "(10::real) powr (- 9) = 1 / 10 ^ 9"
  using ten_powr_minus [of 9] by simp

lemma ten_powr_m11: "(10::real) powr (- 11) = 1 / 10 ^ 11"
  using ten_powr_minus [of 11] by simp

lemma target_gain_lower: "29204 / 32768 < (10::real) powr (- 1 / 20)"
proof (rule powr_less_baseI [where n = 20 and y = "- 1"])
  show "(29204 / 32768 :: real) ^ 20 < 10 powr (- 1)"
    unfolding ten_powr_m1 by (simp add: power_divide)
qed simp_all

lemma target_gain_upper: "(10::real) powr (- 1 / 20) < 29205 / 32768"
proof (rule powr_greater_baseI [where n = 20 and y = "- 1"])
  show "10 powr (- 1) < (29205 / 32768 :: real) ^ 20"
    unfolding ten_powr_m1 by (simp add: power_divide)
qed simp_all

lemma margin_lower_a: "(10::real) powr (- 11) \<le> (8 / 100) ^ 10"
  unfolding ten_powr_m11 by (simp add: power_divide)

lemma margin_lower_b: "(10::real) powr (- 11 / 10) \<le> 8 / 100"
proof (rule powr_ge_baseI [where n = 10 and y = "- 11"])
  show "(0::nat) < 10" by simp
  show "(- 11::real) = - 11 / 10 * real 10" by simp
  show "(0::real) \<le> 8 / 100" by simp
  show "(10::real) powr (- 11) \<le> (8 / 100) ^ 10" by (rule margin_lower_a)
qed

lemma margin_lower_c: "(8 / 100 :: real) \<le> (89 / 100) ^ 20"
  by (simp add: power_divide)

lemma margin_lower_d: "(10::real) powr (- 11 / 200) \<le> 89 / 100"
proof (rule powr_ge_baseI [where n = 20 and y = "- 11 / 10"])
  show "(0::nat) < 20" by simp
  show "(- 11 / 10 ::real) = - 11 / 200 * real 20" by simp
  show "(0::real) \<le> 89 / 100" by simp
  show "(10::real) powr (- 11 / 10) \<le> (89 / 100) ^ 20"
    using margin_lower_b margin_lower_c by (rule order_trans)
qed

lemma margin_lower: "(10::real) powr (- 11 / 200) \<le> 29204 / 32768"
proof -
  have "(89 / 100 :: real) \<le> 29204 / 32768" by simp
  with margin_lower_d show ?thesis by (rule order_trans)
qed

lemma margin_upper_a: "(125 / 1000) ^ 10 \<le> (10::real) powr (- 9)"
  unfolding ten_powr_m9 by (simp add: power_divide)

lemma margin_upper_b: "125 / 1000 \<le> (10::real) powr (- 9 / 10)"
proof (rule powr_le_baseI [where n = 10 and y = "- 9"])
  show "(0::nat) < 10" by simp
  show "(- 9::real) = - 9 / 10 * real 10" by simp
  show "(125 / 1000) ^ 10 \<le> (10::real) powr (- 9)" by (rule margin_upper_a)
qed

lemma margin_upper_c: "(9 / 10 :: real) ^ 20 \<le> 125 / 1000"
  by (simp add: power_divide)

lemma margin_upper_d: "9 / 10 \<le> (10::real) powr (- 9 / 200)"
proof (rule powr_le_baseI [where n = 20 and y = "- 9 / 10"])
  show "(0::nat) < 20" by simp
  show "(- 9 / 10 ::real) = - 9 / 200 * real 20" by simp
  show "(9 / 10) ^ 20 \<le> (10::real) powr (- 9 / 10)"
    using margin_upper_c margin_upper_b by (rule order_trans)
qed

lemma margin_upper: "29205 / 32768 \<le> (10::real) powr (- 9 / 200)"
proof -
  have "(29205 / 32768 :: real) \<le> 9 / 10" by simp
  then show ?thesis using margin_upper_d by (rule order_trans)
qed

lemma max_amplitude_ge: "s \<in> set (samples a) \<Longrightarrow> \<bar>s\<bar> \<le> max_amplitude a"
  unfolding max_amplitude_def by (rule fold_max_mem) simp

lemma max_amplitude_attained:
  assumes "0 < max_amplitude a"
  shows "\<exists>s\<in>set (samples a). \<bar>s\<bar> = max_amplitude a"
proof -
  have "max_amplitude a = 0 \<or> max_amplitude a \<in> set (map abs (samples a))"
    unfolding max_amplitude_def by (rule fold_max_cases)
  with assms have "max_amplitude a \<in> set (map abs (samples a))" by simp
  then show ?thesis by auto
qed

lemma max_amplitude_pos:
  assumes "\<exists>s\<in>set (samples a). s \<noteq> 0"
  shows "0 < max_amplitude a"
proof -
  from assms obtain s where s: "s \<in> set (samples a)" "s \<noteq> 0" by blast
  have "0 < \<bar>s\<bar>" using s(2) by simp
  also have "\<bar>s\<bar> \<le> max_amplitude a" using s(1) by (rule max_amplitude_ge)
  finally show ?thesis .
qed

lemma gain_eq:
  assumes "0 < m"
  shows "10 powr ((T - 20 * log 10 (real_of_int m / 32768)) / 20) =
         10 powr (T / 20) * (32768 / real_of_int m)"
proof -
  let ?q = "real_of_int m / 32768"
  have q: "0 < ?q" using assms by simp
  have c: "10 powr (log 10 ?q) = ?q" using q by (intro powr_log_cancel) simp_all
  have "(T - 20 * log 10 ?q) / 20 = T / 20 + - log 10 ?q" by (simp add: field_simps)
  then have "10 powr ((T - 20 * log 10 ?q) / 20) = 10 powr (T / 20 + - log 10 ?q)"
    by (rule arg_cong)
  also have "\<dots> = 10 powr (T / 20) * 10 powr (- log 10 ?q)" by (rule powr_add)
  also have "10 powr (- log 10 ?q) = 1 / 10 powr (log 10 ?q)" by (rule powr_minus_divide)
  also have "1 / 10 powr (log 10 ?q) = 1 / ?q" unfolding c ..
  also have "1 / ?q = 32768 / real_of_int m" by simp
  finally show ?thesis .
qed

lemma attenuated_bound:
  fixes G :: real
  assumes m: "0 < m" and s: "\<bar>s\<bar> \<le> m" and G: "0 \<le> G" "G \<le> 1"
  shows "\<bar>real_of_int s * (G * (32768 / real_of_int m))\<bar> \<le> 32768"
proof -
  have mm: "0 < real_of_int m" using m by simp
  have "\<bar>real_of_int s\<bar> \<le> real_of_int m" using s by linarith
  then have r: "\<bar>real_of_int s\<bar> / real_of_int m \<le> 1" using mm by simp
  have r0: "0 \<le> \<bar>real_of_int s\<bar> / real_of_int m" using mm by simp
  have "\<bar>real_of_int s * (G * (32768 / real_of_int m))\<bar> =
        (\<bar>real_of_int s\<bar> / real_of_int m) * (G * 32768)"
    using mm G(1) by (simp add: abs_mult field_simps)
  also have "\<dots> \<le> 1 * (G * 32768)" using r G(1) by (intro mult_right_mono) simp_all
  also have "\<dots> \<le> 32768" using G(2) by simp
  finally show ?thesis .
qed

lemma mul_sample_close:
  assumes "\<bar>real_of_int s * f\<bar> \<le> 32768"
  shows "\<bar>real_of_int (mul_sample f s) - real_of_int s * f\<bar> \<le> 1"
proof -
  let ?v = "real_of_int s * f"
  have b: "?v \<le> 32768" "- 32768 \<le> ?v" using assms by linarith+
  consider "?v > 32767" | "\<not> ?v > 32767" "?v < - 32767"
    | "\<not> ?v > 32767" "\<not> ?v < - 32767" by blast
  then show ?thesis
  proof cases
    case 1
    then have "mul_sample f s = 32767" by (simp add: mul_sample_def Let_def)
    then show ?thesis using 1 b by simp
  next
    case 2
    then have "mul_sample f s = - 32768" by (simp add: mul_sample_def Let_def)
    then show ?thesis using 2 b by simp
  next
    case 3
    then have "mul_sample f s = \<lfloor>?v\<rfloor>" by (simp add: mul_sample_def Let_def)
    then show ?thesis by linarith
  qed
qed

lemma scaled_bounds:
  fixes G :: real
  assumes m: "0 < m" and s: "\<bar>s\<bar> \<le> m"
      and G: "29204 / 32768 < G" "G < 29205 / 32768"
  shows "\<bar>real_of_int s * (G * (32768 / real_of_int m))\<bar> < 29205"
proof -
  have mm: "0 < real_of_int m" using m by simp
  have "\<bar>real_of_int s\<bar> \<le> real_of_int m" using s by linarith
  then have r: "\<bar>real_of_int s\<bar> / real_of_int m \<le> 1" using mm by simp
  have K: "0 < G * 32768" "G * 32768 < 29205" using G by simp_all
  have "\<bar>real_of_int s * (G * (32768 / real_of_int m))\<bar> =
        (\<bar>real_of_int s\<bar> / real_of_int m) * (G * 32768)"
    using mm K(1) by (simp add: abs_mult field_simps)
  also have "\<dots> \<le> 1 * (G * 32768)" using r K(1) by (intro mult_right_mono) simp_all
  also have "\<dots> < 29205" using K(2) by simp
  finally show ?thesis .
qed

lemma clip_floor:
  fixes v :: real
  assumes "\<bar>v\<bar> < 29205"
  shows "(if v > 32767 then 32767 else if v < - 32767 then - 32768 else \<lfloor>v\<rfloor>) = \<lfloor>v\<rfloor>"
proof -
  have "\<not> v > 32767" "\<not> v < - 32767" using assms by linarith+
  then show ?thesis by simp
qed

lemma mul_sample_floor:
  assumes "\<bar>real_of_int s * f\<bar> < 29205"
  shows "mul_sample f s = \<lfloor>real_of_int s * f\<rfloor>"
  unfolding mul_sample_def Let_def using assms by (rule clip_floor)

lemma floor_bounds:
  fixes v :: real
  assumes "\<bar>v\<bar> < 29205"
  shows "\<lfloor>v\<rfloor> \<le> 29204" "- 29205 \<le> \<lfloor>v\<rfloor>"
proof -
  have "v < 29205" "- 29205 < v" using assms by linarith+
  then show "\<lfloor>v\<rfloor> \<le> 29204" "- 29205 \<le> \<lfloor>v\<rfloor>" by linarith+
qed

lemma mul_sample_bounds:
  fixes G :: real
  assumes m: "0 < m" and s: "\<bar>s\<bar> \<le> m"
      and G: "29204 / 32768 < G" "G < 29205 / 32768"
  shows "\<bar>mul_sample (G * (32768 / real_of_int m)) s\<bar> \<le> 29205"
proof -
  let ?v = "real_of_int s * (G * (32768 / real_of_int m))"
  have b: "\<bar>?v\<bar> < 29205" using m s G by (rule scaled_bounds)
  then have e: "mul_sample (G * (32768 / real_of_int m)) s = \<lfloor>?v\<rfloor>"
    by (rule mul_sample_floor)
  have "\<lfloor>?v\<rfloor> \<le> 29204" "- 29205 \<le> \<lfloor>?v\<rfloor>" using b by (rule floor_bounds)+
  then show ?thesis unfolding e by linarith
qed

lemma mul_sample_peak:
  fixes G :: real
  assumes m: "0 < m" and s: "\<bar>s\<bar> = m"
      and G: "29204 / 32768 < G" "G < 29205 / 32768"
  shows "29204 \<le> \<bar>mul_sample (G * (32768 / real_of_int m)) s\<bar>"
proof -
  let ?v = "real_of_int s * (G * (32768 / real_of_int m))"
  have mm: "0 < real_of_int m" using m by simp
  have b: "\<bar>?v\<bar> < 29205" using m G s by (intro scaled_bounds) simp_all
  then have e: "mul_sample (G * (32768 / real_of_int m)) s = \<lfloor>?v\<rfloor>"
    by (rule mul_sample_floor)
  have K: "29204 < G * 32768" using G by simp
  from s have "s = m \<or> s = - m" by linarith
  then show ?thesis
  proof
    assume "s = m"
    then have "?v = G * 32768" using mm by simp
    then have "29204 < ?v" using K by simp
    then have "29204 \<le> \<lfloor>?v\<rfloor>" by linarith
    then show ?thesis unfolding e by linarith
  next
    assume "s = - m"
    then have "?v = - (G * 32768)" using mm by simp
    then have "?v < - 29204" using K by simp
    then have "\<lfloor>?v\<rfloor> \<le> - 29204" by linarith
    then show ?thesis unfolding e by linarith
  qed
qed

lemma level_within_margin:
  assumes "29204 \<le> p" "p \<le> (29205::int)"
  shows "\<bar>20 * log 10 (real_of_int p / 32768) - (- 1)\<bar> \<le> 1 / 10"
proof -
  let ?q = "real_of_int p / 32768"
  have q: "0 < ?q" using assms(1) by simp
  have lo: "10 powr (- 11 / 200) \<le> ?q"
  proof -
    have "(29204 / 32768 :: real) \<le> ?q" using assms(1) by simp
    with margin_lower show ?thesis by (rule order_trans)
  qed
  have hi: "?q \<le> 10 powr (- 9 / 200)"
  proof -
    have "?q \<le> (29205 / 32768 :: real)" using assms(2) by simp
    then show ?thesis using margin_upper by (rule order_trans)
  qed
  have "log 10 (10 powr (- 11 / 200)) \<le> log 10 ?q"
    using lo q by (subst log_le_cancel_iff) simp_all
  then have a: "- 11 / 200 \<le> log 10 ?q" by simp
  have "log 10 ?q \<le> log 10 (10 powr (- 9 / 200))"
    using hi q by (subst log_le_cancel_iff) simp_all
  then have b: "log 10 ?q \<le> - 9 / 200" by simp
  show ?thesis using a b by linarith
qed

lemma normalized_amplitude:
  fixes G :: real
  assumes m: "0 < max_amplitude a"
      and G: "29204 / 32768 < G" "G < 29205 / 32768"
  shows "29204 \<le> max_amplitude
           (a\<lparr>samples := map (mul_sample (G * (32768 / real_of_int (max_amplitude a)))) (samples a)\<rparr>) \<and>
         max_amplitude
           (a\<lparr>samples := map (mul_sample (G * (32768 / real_of_int (max_amplitude a)))) (samples a)\<rparr>)
           \<le> 29205"
proof -
  let ?g = "G * (32768 / real_of_int (max_amplitude a))"
  let ?out = "map (mul_sample ?g) (samples a)"
  let ?b = "a\<lparr>samples := ?out\<rparr>"
  have sel: "samples ?b = ?out" by simp
  have up: "\<And>y. y \<in> set ?out \<Longrightarrow> \<bar>y\<bar> \<le> 29205"
  proof -
    fix y assume "y \<in> set ?out"
    then obtain s where s: "s \<in> set (samples a)" "y = mul_sample ?g s" by auto
    have "\<bar>s\<bar> \<le> max_amplitude a" using s(1) by (rule max_amplitude_ge)
    with m have "\<bar>mul_sample ?g s\<bar> \<le> 29205" using G by (rule mul_sample_bounds)
    then show "\<bar>y\<bar> \<le> 29205" unfolding s(2) .
  qed
  have "max_amplitude ?b = 0 \<or> max_amplitude ?b \<in> set (map abs (samples ?b))"
    unfolding max_amplitude_def by (rule fold_max_cases)
  then have hi: "max_amplitude ?b \<le> 29205"
  proof
    assume "max_amplitude ?b = 0"
    then show ?thesis by simp
  next
    assume "max_amplitude ?b \<in> set (map abs (samples ?b))"
    then obtain y where "y \<in> set ?out" "max_amplitude ?b = \<bar>y\<bar>" unfolding sel by auto
    then show ?thesis using up by simp
  qed
  from m obtain s where s: "s \<in> set (samples a)" "\<bar>s\<bar> = max_amplitude a"
    using max_amplitude_attained by blast
  have "29204 \<le> \<bar>mul_sample ?g s\<bar>" using m s(2) G by (rule mul_sample_peak)
  also have "\<bar>mul_sample ?g s\<bar> \<le> max_amplitude ?b"
  proof (rule max_amplitude_ge)
    show "mul_sample ?g s \<in> set (samples ?b)" unfolding sel using s(1) by simp
  qed
  finally show ?thesis using hi by simp
qed

text \<open>
  C9. On a buffer that is not silent, with a target that is not above 0 dBFS,
  \<open>normalize_audio\<close> raises nothing and multiplies every sample by \<open>10 ** (change / 20)\<close>,
  where \<open>change\<close> is the target minus the current peak level
  \<open>20 * log10 (max / 32768)\<close>: each stored integer is within 2 of that product, and the
  number of samples, the frame rate and the channels are unchanged. With the target
  \<open>-1.0\<close> the peak level of the result is within 0.1 dB of \<open>-1.0\<close> dBFS.
\<close>

theorem normalize_to_target:
  "((\<exists>s\<in>set (samples (audio self)). s \<noteq> 0) \<and> target_dBFS self \<le> 0 \<longrightarrow>
      fst (normalize_audio self) = None \<and>
      close (samples (audio (snd (normalize_audio self))))
        (map (\<lambda>s. real_of_int s *
                10 powr ((target_dBFS self
                   - 20 * log 10 (real_of_int (max_amplitude (audio self)) / 32768)) / 20))
           (samples (audio self))) \<and>
      length (samples (audio (snd (normalize_audio self)))) = length (samples (audio self)) \<and>
      frame_rate (audio (snd (normalize_audio self))) = frame_rate (audio self) \<and>
      channels (audio (snd (normalize_audio self))) = channels (audio self)) \<and>
   ((\<exists>s\<in>set (samples (audio self)). s \<noteq> 0) \<and> target_dBFS self = - 1 \<longrightarrow>
      \<bar>max_dBFS (audio (snd (normalize_audio self))) - (- 1)\<bar> \<le> 1 / 10)"
proof (rule conjI)
  let ?a = "audio self"
  let ?m = "max_amplitude ?a"
  let ?f = "10 powr ((target_dBFS self - 20 * log 10 (real_of_int ?m / 32768)) / 20)"
  let ?b = "?a\<lparr>samples := map (mul_sample ?f) (samples ?a)\<rparr>"
  show "(\<exists>s\<in>set (samples (audio self)). s \<noteq> 0) \<and> target_dBFS self \<le> 0 \<longrightarrow>
      fst (normalize_audio self) = None \<and>
      close (samples (audio (snd (normalize_audio self))))
        (map (\<lambda>s. real_of_int s * ?f) (samples (audio self))) \<and>
      length (samples (audio (snd (normalize_audio self)))) = length (samples (audio self)) \<and>
      frame_rate (audio (snd (normalize_audio self))) = frame_rate (audio self) \<and>
      channels (audio (snd (normalize_audio self))) = channels (audio self)"
  proof
    assume h: "(\<exists>s\<in>set (samples (audio self)). s \<noteq> 0) \<and> target_dBFS self \<le> 0"
    then have m: "0 < ?m" by (intro max_amplitude_pos) simp
    have n: "normalize_audio self = (None, self\<lparr>audio := ?b\<rparr>)"
      using m by (simp add: normalize_audio_def Let_def apply_gain_def max_dBFS_def)
    have g: "?f = 10 powr (target_dBFS self / 20) * (32768 / real_of_int ?m)"
      using m by (rule gain_eq)
    have G0: "0 \<le> (10::real) powr (target_dBFS self / 20)" by simp
    have "(10::real) powr (target_dBFS self / 20) \<le> 10 powr 0"
      using h by (intro powr_mono) simp_all
    then have G1: "(10::real) powr (target_dBFS self / 20) \<le> 1" by simp
    have c: "close (map (mul_sample ?f) (samples ?a)) (map (\<lambda>s. real_of_int s * ?f) (samples ?a))"
    proof (rule close_map)
      fix s assume "s \<in> set (samples ?a)"
      then have "\<bar>s\<bar> \<le> ?m" by (rule max_amplitude_ge)
      with m have "\<bar>real_of_int s * ?f\<bar> \<le> 32768"
        unfolding g using G0 G1 by (rule attenuated_bound)
      then have "\<bar>real_of_int (mul_sample ?f s) - real_of_int s * ?f\<bar> \<le> 1"
        by (rule mul_sample_close)
      then show "\<bar>real_of_int (mul_sample ?f s) - real_of_int s * ?f\<bar> \<le> 2" by linarith
    qed
    show "fst (normalize_audio self) = None \<and>
      close (samples (audio (snd (normalize_audio self))))
        (map (\<lambda>s. real_of_int s * ?f) (samples (audio self))) \<and>
      length (samples (audio (snd (normalize_audio self)))) = length (samples (audio self)) \<and>
      frame_rate (audio (snd (normalize_audio self))) = frame_rate (audio self) \<and>
      channels (audio (snd (normalize_audio self))) = channels (audio self)"
      unfolding n using c by simp
  qed
next
  let ?a = "audio self"
  let ?m = "max_amplitude ?a"
  let ?G = "(10::real) powr (- 1 / 20)"
  let ?b = "?a\<lparr>samples := map (mul_sample (?G * (32768 / real_of_int ?m))) (samples ?a)\<rparr>"
  show "(\<exists>s\<in>set (samples (audio self)). s \<noteq> 0) \<and> target_dBFS self = - 1 \<longrightarrow>
      \<bar>max_dBFS (audio (snd (normalize_audio self))) - (- 1)\<bar> \<le> 1 / 10"
  proof
    assume h: "(\<exists>s\<in>set (samples (audio self)). s \<noteq> 0) \<and> target_dBFS self = - 1"
    then have m: "0 < ?m" by (intro max_amplitude_pos) simp
    have t: "target_dBFS self = - 1" using h by simp
    have g: "10 powr ((target_dBFS self - max_dBFS ?a) / 20) = ?G * (32768 / real_of_int ?m)"
      unfolding t max_dBFS_def by (rule gain_eq [OF m])
    have n: "normalize_audio self = (None, self\<lparr>audio := ?b\<rparr>)"
      using m unfolding normalize_audio_def Let_def apply_gain_def g by simp
    have p: "29204 \<le> max_amplitude ?b \<and> max_amplitude ?b \<le> 29205"
      using m target_gain_lower target_gain_upper by (rule normalized_amplitude)
    have d: "\<bar>max_dBFS ?b - (- 1)\<bar> \<le> 1 / 10"
      unfolding max_dBFS_def using p by (intro level_within_margin) simp_all
    show "\<bar>max_dBFS (audio (snd (normalize_audio self))) - (- 1)\<bar> \<le> 1 / 10"
      unfolding n using d by simp
  qed
qed

theorem normalize_to_target_witness:
  "fst (normalize_audio
      ((default_maker \<lparr>samples = [100, - 250, 30], frame_rate = 44100, channels = 1\<rparr>)
         \<lparr>slow_down := False, reverb := False\<rparr>)) = None \<and>
   close (samples (audio (snd (normalize_audio
      ((default_maker \<lparr>samples = [100, - 250, 30], frame_rate = 44100, channels = 1\<rparr>)
         \<lparr>slow_down := False, reverb := False\<rparr>)))))
     (map (\<lambda>s. real_of_int s * (10 powr (- 1 / 20) * (32768 / 250))) [100, - 250, 30]) \<and>
   length (samples (audio (snd (normalize_audio
      ((default_maker \<lparr>samples = [100, - 250, 30], frame_rate = 44100, channels = 1\<rparr>)
         \<lparr>slow_down := False, reverb := False\<rparr>))))) = 3 \<and>
   frame_rate (audio (snd (normalize_audio
      ((default_maker \<lparr>samples = [100, - 250, 30], frame_rate = 44100, channels = 1\<rparr>)
         \<lparr>slow_down := False, reverb := False\<rparr>)))) = 44100 \<and>
   \<bar>max_dBFS (audio (snd (normalize_audio
      ((default_maker \<lparr>samples = [100, - 250, 30], frame_rate = 44100, channels = 1\<rparr>)
         \<lparr>slow_down := False, reverb := False\<rparr>)))) - (- 1)\<bar> \<le> 1 / 10"
proof -
  let ?X = "(default_maker \<lparr>samples = [100, - 250, 30], frame_rate = 44100, channels = 1\<rparr>)
         \<lparr>slow_down := False, reverb := False\<rparr>"
  have h1: "(\<exists>s\<in>set (samples (audio ?X)). s \<noteq> 0) \<and> target_dBFS ?X \<le> 0"
    by (simp add: default_maker_def)
  have h2: "(\<exists>s\<in>set (samples (audio ?X)). s \<noteq> 0) \<and> target_dBFS ?X = - 1"
    by (simp add: default_maker_def)
  have s: "samples (audio ?X) = [100, - 250, 30]" "frame_rate (audio ?X) = 44100"
    "target_dBFS ?X = - 1"
    by (simp_all add: default_maker_def)
  have m: "max_amplitude (audio ?X) = 250"
    by (simp add: max_amplitude_def default_maker_def)
  have g: "10 powr ((- 1 - 20 * log 10 (real_of_int 250 / 32768)) / 20) =
           10 powr (- 1 / 20) * (32768 / real_of_int 250)"
    by (rule gain_eq) simp
  note t = normalize_to_target [of ?X]
  from t h1 have a: "fst (normalize_audio ?X) = None \<and>
      close (samples (audio (snd (normalize_audio ?X))))
        (map (\<lambda>s. real_of_int s *
                10 powr ((target_dBFS ?X
                   - 20 * log 10 (real_of_int (max_amplitude (audio ?X)) / 32768)) / 20))
           (samples (audio ?X))) \<and>
      length (samples (audio (snd (normalize_audio ?X)))) = length (samples (audio ?X)) \<and>
      frame_rate (audio (snd (normalize_audio ?X))) = frame_rate (audio ?X) \<and>
      channels (audio (snd (normalize_audio ?X))) = channels (audio ?X)"
    by blast
  from t h2 have b: "\<bar>max_dBFS (audio (snd (normalize_audio ?X))) - (- 1)\<bar> \<le> 1 / 10"
    by blast
  from a have a1: "fst (normalize_audio ?X) = None" by (rule conjunct1)
  from a have a2: "close (samples (audio (snd (normalize_audio ?X))))
        (map (\<lambda>s. real_of_int s * (10 powr (- 1 / 20) * (32768 / 250))) [100, - 250, 30])"
    unfolding m s g by (simp only: conjunct1 [OF conjunct2] of_int_numeral)
  from a have a3: "length (samples (audio (snd (normalize_audio ?X)))) = 3"
    unfolding s by simp
  from a have a4: "frame_rate (audio (snd (normalize_audio ?X))) = 44100"
    unfolding s by simp
  show ?thesis using a1 a2 a3 a4 b by (intro conjI)
qed

end
